theory Spec2Isabelle
  imports Main "HOL-Library.Word"
begin

unbundle bit_operations_syntax

section \<open>Machine types\<close>

type_synonym int32_t = "32 word"
type_synonym int16_t = "16 word"
type_synonym uint32_t = "32 word"
type_synonym uint8_t = "8 word"

text \<open>
  A handle of the RTOS (\<^verbatim>\<open>osMutexId_t\<close>, \<open>osThreadId_t\<close>, ...) or a heap pointer is an
  identifier; \<^verbatim>\<open>NULL\<close> is \<open>None\<close> of the option type wrapped around it.
\<close>

type_synonym handle = nat

section \<open>The RTOS primitives used by the code\<close>

datatype osStatus_t =
  osOK | osError | osErrorTimeout | osErrorResource | osErrorParameter
  | osErrorNoMemory | osErrorISR

text \<open>The timeout value \<^verbatim>\<open>osWaitForever\<close> of cmsis\_os2.h.\<close>

definition osWaitForever :: uint32_t where
  "osWaitForever = 0xFFFFFFFF"

text \<open>
  Modelled from the spec: the message queue of the RTOS (\<^verbatim>\<open>osMessageQueueNew\<close>,
  \<^verbatim>\<open>osMessageQueuePut\<close>, \<^verbatim>\<open>osMessageQueueGet\<close>), whose implementation is not part of the
  sources. The spec describes it as a bounded mailbox whose dequeue order is strict
  priority order and first-in first-out within one priority; a producer blocks up to
  its timeout waiting for capacity, a consumer blocks while the queue is empty.

  A call is one atomic step taken at the moment it completes. The result \<open>None\<close> says
  that the caller stays blocked in the call: a put with \<open>osWaitForever\<close> on a full
  queue, a get with \<open>osWaitForever\<close> on an empty one. A put with a finite non-zero
  timeout that finds the queue full at the end of its wait returns \<open>osErrorTimeout\<close>,
  one with timeout zero returns \<open>osErrorResource\<close> at once. A \<^verbatim>\<open>NULL\<close> queue is a
  parameter error.
\<close>

record 'a msg_queue =
  mq_id :: handle
  mq_capacity :: nat
  mq_msgs :: "('a \<times> uint8_t) list"

fun mq_insert :: "'a \<times> uint8_t \<Rightarrow> ('a \<times> uint8_t) list \<Rightarrow> ('a \<times> uint8_t) list" where
  "mq_insert m [] = [m]"
| "mq_insert m (x # xs) = (if snd x < snd m then m # x # xs else x # mq_insert m xs)"

definition osMessageQueuePut ::
  "'a msg_queue option \<Rightarrow> 'a \<Rightarrow> uint8_t \<Rightarrow> uint32_t
    \<Rightarrow> (osStatus_t \<times> 'a msg_queue option) option" where
  "osMessageQueuePut mq msg msg_prio timeout =
     (case mq of
        None \<Rightarrow> Some (osErrorParameter, None)
      | Some q \<Rightarrow>
          if length (mq_msgs q) < mq_capacity q
          then Some (osOK, Some (q\<lparr>mq_msgs := mq_insert (msg, msg_prio) (mq_msgs q)\<rparr>))
          else if timeout = 0 then Some (osErrorResource, Some q)
          else if timeout = osWaitForever then None
          else Some (osErrorTimeout, Some q))"

definition osMessageQueueGet ::
  "'a msg_queue option \<Rightarrow> uint32_t
    \<Rightarrow> (osStatus_t \<times> 'a option \<times> 'a msg_queue option) option" where
  "osMessageQueueGet mq timeout =
     (case mq of
        None \<Rightarrow> Some (osErrorParameter, None, None)
      | Some q \<Rightarrow>
          (case mq_msgs q of
             m # ms \<Rightarrow> Some (osOK, Some (fst m), Some (q\<lparr>mq_msgs := ms\<rparr>))
           | [] \<Rightarrow>
               if timeout = 0 then Some (osErrorResource, None, Some q)
               else if timeout = osWaitForever then None
               else Some (osErrorTimeout, None, Some q)))"

text \<open>
  Modelled from the spec: the counting semaphore of the RTOS (\<^verbatim>\<open>osSemaphoreNew\<close>,
  \<^verbatim>\<open>osSemaphoreRelease\<close>, \<^verbatim>\<open>osSemaphoreAcquire\<close>), not part of the sources. Acquire
  blocks while no unit is available; release adds one unit up to the maximum.
\<close>

record semaphore =
  sem_id :: handle
  sem_max :: nat
  sem_count :: nat

definition osSemaphoreRelease :: "semaphore option \<Rightarrow> osStatus_t \<times> semaphore option" where
  "osSemaphoreRelease sem =
     (case sem of
        None \<Rightarrow> (osErrorParameter, None)
      | Some sm \<Rightarrow>
          if sem_count sm < sem_max sm
          then (osOK, Some (sm\<lparr>sem_count := sem_count sm + 1\<rparr>))
          else (osErrorResource, Some sm))"

definition osSemaphoreAcquire ::
  "semaphore option \<Rightarrow> uint32_t \<Rightarrow> (osStatus_t \<times> semaphore option) option" where
  "osSemaphoreAcquire sem timeout =
     (case sem of
        None \<Rightarrow> Some (osErrorParameter, None)
      | Some sm \<Rightarrow>
          if 0 < sem_count sm
          then Some (osOK, Some (sm\<lparr>sem_count := sem_count sm - 1\<rparr>))
          else if timeout = 0 then Some (osErrorResource, Some sm)
          else if timeout = osWaitForever then None
          else Some (osErrorTimeout, Some sm))"

section \<open>The logger, as far as the code under study writes to it\<close>

datatype log_level_t = LOG_LEVEL_DEBUG | LOG_LEVEL_INFO | LOG_LEVEL_WARN | LOG_LEVEL_ERROR

type_synonym log = "(log_level_t \<times> string) list"

definition LOGD :: "string \<Rightarrow> log \<Rightarrow> log" where
  "LOGD message lg = lg @ [(LOG_LEVEL_DEBUG, message)]"

definition LOGI :: "string \<Rightarrow> log \<Rightarrow> log" where
  "LOGI message lg = lg @ [(LOG_LEVEL_INFO, message)]"

definition LOGW :: "string \<Rightarrow> log \<Rightarrow> log" where
  "LOGW message lg = lg @ [(LOG_LEVEL_WARN, message)]"

definition LOGE :: "string \<Rightarrow> log \<Rightarrow> log" where
  "LOGE message lg = lg @ [(LOG_LEVEL_ERROR, message)]"

section \<open>The audio recorder (audio\_recorder.h, audio\_recorder.c)\<close>

definition AUDIO_BUFFER_SIZE :: nat where
  "AUDIO_BUFFER_SIZE = 2048"

datatype audio_buffer_state_t =
  AUDIO_BUFFER_EMPTY | AUDIO_BUFFER_HALF_FULL | AUDIO_BUFFER_FULL

record audio_data_t =
  left_buffer :: "int32_t list"
  right_buffer :: "int32_t list"
  playback_buffer :: "int16_t list"
  buffer_state :: audio_buffer_state_t
  buffer_index :: uint32_t

record audio_recorder_t =
  audio_data :: audio_data_t
  audio_semaphore :: "semaphore option"
  audio_queue :: "audio_buffer_state_t msg_queue option"
  is_recording :: bool

text \<open>
  Modelled from the spec: the hardware streaming source (the DFSDM filters and their
  HAL functions), not part of the sources. A filter is configured, then started for a
  continuous transfer into a buffer, and stopped. Whether a call succeeds is decided
  by the hardware: the status each call returns is an input of the model
  (\<open>hal_results\<close>). A successful start leaves the filter running; a failed call
  changes nothing. Every call is recorded in \<open>hal_calls\<close>.
\<close>

datatype HAL_StatusTypeDef = HAL_OK | HAL_ERROR | HAL_BUSY | HAL_TIMEOUT

datatype dfsdm_filter = hdfsdm1_filter0 | hdfsdm1_filter1

datatype dfsdm_channel = DFSDM_CHANNEL_0 | DFSDM_CHANNEL_3

datatype hal_call =
  FilterConfigRegChannel dfsdm_filter dfsdm_channel
  | FilterRegularStart_DMA dfsdm_filter nat
  | FilterRegularStop_DMA dfsdm_filter

type_synonym hal_results = "hal_call \<Rightarrow> HAL_StatusTypeDef"

record dfsdm_hw =
  dma_running :: "dfsdm_filter \<Rightarrow> bool"
  hal_calls :: "hal_call list"

definition HAL_DFSDM_FilterConfigRegChannel ::
  "hal_results \<Rightarrow> dfsdm_filter \<Rightarrow> dfsdm_channel \<Rightarrow> dfsdm_hw \<Rightarrow> HAL_StatusTypeDef \<times> dfsdm_hw" where
  "HAL_DFSDM_FilterConfigRegChannel res f ch hw =
     (res (FilterConfigRegChannel f ch),
      hw\<lparr>hal_calls := hal_calls hw @ [FilterConfigRegChannel f ch]\<rparr>)"

definition HAL_DFSDM_FilterRegularStart_DMA ::
  "hal_results \<Rightarrow> dfsdm_filter \<Rightarrow> nat \<Rightarrow> dfsdm_hw \<Rightarrow> HAL_StatusTypeDef \<times> dfsdm_hw" where
  "HAL_DFSDM_FilterRegularStart_DMA res f len hw =
     (res (FilterRegularStart_DMA f len),
      hw\<lparr>dma_running :=
            (if res (FilterRegularStart_DMA f len) = HAL_OK
             then (dma_running hw)(f := True) else dma_running hw),
         hal_calls := hal_calls hw @ [FilterRegularStart_DMA f len]\<rparr>)"

definition HAL_DFSDM_FilterRegularStop_DMA :: "dfsdm_filter \<Rightarrow> dfsdm_hw \<Rightarrow> dfsdm_hw" where
  "HAL_DFSDM_FilterRegularStop_DMA f hw =
     hw\<lparr>dma_running := (dma_running hw)(f := False),
        hal_calls := hal_calls hw @ [FilterRegularStop_DMA f]\<rparr>"

text \<open>
  The state the recorder's functions work on: the global \<^verbatim>\<open>g_audio_recorder\<close>, the
  hardware behind the two filter handles, and the log.
\<close>

record recorder_sys =
  g_audio_recorder :: audio_recorder_t
  hw :: dfsdm_hw
  rec_log :: log

subsection \<open>Initialisation, start and stop\<close>

text \<open>
  \<^verbatim>\<open>audio_recorder_init\<close>. The two booleans say whether the RTOS can create the
  semaphore and the queue; the two handles are the identifiers it would give them.
  The function returns early when a creation fails.
\<close>

definition zero_audio_data :: audio_data_t where
  "zero_audio_data =
     \<lparr>left_buffer = replicate AUDIO_BUFFER_SIZE 0,
      right_buffer = replicate AUDIO_BUFFER_SIZE 0,
      playback_buffer = replicate (AUDIO_BUFFER_SIZE * 2) 0,
      buffer_state = AUDIO_BUFFER_EMPTY,
      buffer_index = 0\<rparr>"

definition audio_recorder_init ::
  "(bool \<times> handle) \<Rightarrow> (bool \<times> handle) \<Rightarrow> recorder_sys \<Rightarrow> recorder_sys" where
  "audio_recorder_init sem_new mq_new s =
     (let s1 = s\<lparr>rec_log := LOGI ''Initializing Audio Recorder...'' (rec_log s)\<rparr>;
          r1 = (g_audio_recorder s1)
                 \<lparr>audio_data := zero_audio_data\<lparr>buffer_state := AUDIO_BUFFER_EMPTY\<rparr>,
                  is_recording := False\<rparr>;
          r2 = r1\<lparr>audio_semaphore :=
                    (if fst sem_new
                     then Some \<lparr>sem_id = snd sem_new, sem_max = 1, sem_count = 0\<rparr>
                     else None)\<rparr>
      in if audio_semaphore r2 = None
         then s1\<lparr>g_audio_recorder := r2,
                 rec_log := LOGE ''Failed to create audio semaphore'' (rec_log s1)\<rparr>
         else
           let r3 = r2\<lparr>audio_queue :=
                        (if fst mq_new
                         then Some \<lparr>mq_id = snd mq_new, mq_capacity = 10, mq_msgs = []\<rparr>
                         else None)\<rparr>
           in if audio_queue r3 = None
              then s1\<lparr>g_audio_recorder := r3,
                      rec_log := LOGE ''Failed to create audio queue'' (rec_log s1)\<rparr>
              else s1\<lparr>g_audio_recorder := r3,
                      rec_log := LOGI ''Audio Recorder initialized successfully'' (rec_log s1)\<rparr>)"

text \<open>
  \<^verbatim>\<open>audio_recorder_start\<close>: the guard on \<open>is_recording\<close>, the two channel
  configurations (left on filter 0, right on filter 1), the two transfer starts (right
  first, then left), each followed by an early return on failure.
\<close>

definition audio_recorder_start :: "hal_results \<Rightarrow> recorder_sys \<Rightarrow> recorder_sys" where
  "audio_recorder_start res s =
     (if is_recording (g_audio_recorder s)
      then s\<lparr>rec_log := LOGW ''Audio recording already started'' (rec_log s)\<rparr>
      else
        let s0 = s\<lparr>rec_log := LOGI ''Starting audio recording...'' (rec_log s)\<rparr>;
            (st1, hw1) = HAL_DFSDM_FilterConfigRegChannel res hdfsdm1_filter0 DFSDM_CHANNEL_0 (hw s0);
            s1 = s0\<lparr>hw := hw1\<rparr>
        in if st1 \<noteq> HAL_OK
           then s1\<lparr>rec_log := LOGE ''Failed to configure left DFSDM channel'' (rec_log s1)\<rparr>
           else
             let (st2, hw2) = HAL_DFSDM_FilterConfigRegChannel res hdfsdm1_filter1 DFSDM_CHANNEL_3 (hw s1);
                 s2 = s1\<lparr>hw := hw2\<rparr>
             in if st2 \<noteq> HAL_OK
                then s2\<lparr>rec_log := LOGE ''Failed to configure right DFSDM channel'' (rec_log s2)\<rparr>
                else
                  let (st3, hw3) = HAL_DFSDM_FilterRegularStart_DMA res hdfsdm1_filter1 AUDIO_BUFFER_SIZE (hw s2);
                      s3 = s2\<lparr>hw := hw3\<rparr>
                  in if st3 \<noteq> HAL_OK
                     then s3\<lparr>rec_log := LOGE ''Failed to start right DFSDM filter'' (rec_log s3)\<rparr>
                     else
                       let (st4, hw4) = HAL_DFSDM_FilterRegularStart_DMA res hdfsdm1_filter0 AUDIO_BUFFER_SIZE (hw s3);
                           s4 = s3\<lparr>hw := hw4\<rparr>
                       in if st4 \<noteq> HAL_OK
                          then s4\<lparr>rec_log := LOGE ''Failed to start left DFSDM filter'' (rec_log s4)\<rparr>
                          else s4\<lparr>g_audio_recorder := (g_audio_recorder s4)\<lparr>is_recording := True\<rparr>,
                                  rec_log := LOGI ''Audio recording started successfully'' (rec_log s4)\<rparr>)"

definition audio_recorder_stop :: "recorder_sys \<Rightarrow> recorder_sys" where
  "audio_recorder_stop s =
     (if \<not> is_recording (g_audio_recorder s)
      then s\<lparr>rec_log := LOGW ''Audio recording not active'' (rec_log s)\<rparr>
      else
        let s0 = s\<lparr>rec_log := LOGI ''Stopping audio recording...'' (rec_log s)\<rparr>;
            s1 = s0\<lparr>hw := HAL_DFSDM_FilterRegularStop_DMA hdfsdm1_filter0 (hw s0)\<rparr>;
            s2 = s1\<lparr>hw := HAL_DFSDM_FilterRegularStop_DMA hdfsdm1_filter1 (hw s1)\<rparr>
        in s2\<lparr>g_audio_recorder := (g_audio_recorder s2)\<lparr>is_recording := False\<rparr>,
              rec_log := LOGI ''Audio recording stopped'' (rec_log s2)\<rparr>)"

subsection \<open>The interrupt callbacks\<close>

text \<open>
  Each callback stores its state tag in \<open>buffer_state\<close> and then calls
  \<^verbatim>\<open>osMessageQueuePut\<close> once, with priority 0 and timeout 0, ignoring the status. The
  result is an option because the put is: \<open>None\<close> would be a callback that blocks.
\<close>

definition set_buffer_state :: "audio_buffer_state_t \<Rightarrow> recorder_sys \<Rightarrow> recorder_sys" where
  "set_buffer_state st s =
     s\<lparr>g_audio_recorder :=
         (g_audio_recorder s)\<lparr>audio_data := (audio_data (g_audio_recorder s))\<lparr>buffer_state := st\<rparr>\<rparr>\<rparr>"

definition notify_recorder_task :: "audio_buffer_state_t \<Rightarrow> recorder_sys \<Rightarrow> recorder_sys option" where
  "notify_recorder_task st s =
     (case osMessageQueuePut (audio_queue (g_audio_recorder s)) st 0 0 of
        None \<Rightarrow> None
      | Some (status, q') \<Rightarrow> Some (s\<lparr>g_audio_recorder := (g_audio_recorder s)\<lparr>audio_queue := q'\<rparr>\<rparr>))"

definition audio_recorder_half_complete_callback :: "recorder_sys \<Rightarrow> recorder_sys option" where
  "audio_recorder_half_complete_callback s =
     notify_recorder_task AUDIO_BUFFER_HALF_FULL (set_buffer_state AUDIO_BUFFER_HALF_FULL s)"

definition audio_recorder_full_complete_callback :: "recorder_sys \<Rightarrow> recorder_sys option" where
  "audio_recorder_full_complete_callback s =
     notify_recorder_task AUDIO_BUFFER_FULL (set_buffer_state AUDIO_BUFFER_FULL s)"

subsection \<open>The processor task\<close>

text \<open>
  The body of the conversion loop. \<^verbatim>\<open>buffer[i] >> 8\<close> on an \<^verbatim>\<open>int32_t\<close> is the
  arithmetic shift (\<open>signed_drop_bit\<close>), the comparisons are signed, and the cast to
  \<^verbatim>\<open>int16_t\<close> keeps the low 16 bits.
\<close>

definition saturate_16 :: "int32_t \<Rightarrow> int32_t" where
  "saturate_16 sample =
     (if 32767 <s sample then 32767
      else if sample <s - 32768 then - 32768
      else sample)"

definition convert_sample :: "int32_t \<Rightarrow> int16_t" where
  "convert_sample raw = ucast (saturate_16 (signed_drop_bit 8 raw))"

text \<open>
  The \<^verbatim>\<open>for\<close> loop from \<open>i\<close> to \<open>end_index\<close>. The index is a \<^verbatim>\<open>uint32_t\<close> that never
  exceeds \<open>AUDIO_BUFFER_SIZE\<close>, so it is a natural number here.
\<close>

function convert_and_interleave :: "nat \<Rightarrow> nat \<Rightarrow> audio_data_t \<Rightarrow> audio_data_t" where
  "convert_and_interleave i end_index d =
     (if i < end_index
      then convert_and_interleave (i + 1) end_index
             (d\<lparr>playback_buffer :=
                  (playback_buffer d)
                    [2 * i := convert_sample (left_buffer d ! i),
                     2 * i + 1 := convert_sample (right_buffer d ! i)]\<rparr>)
      else d)"
  by pat_completeness auto
termination
  by (relation "measure (\<lambda>(i, end_index, d). end_index - i)") auto

declare convert_and_interleave.simps [simp del]

definition start_index :: "audio_buffer_state_t \<Rightarrow> nat" where
  "start_index st = (if st = AUDIO_BUFFER_FULL then AUDIO_BUFFER_SIZE div 2 else 0)"

definition end_index :: "audio_buffer_state_t \<Rightarrow> nat" where
  "end_index st = (if st = AUDIO_BUFFER_FULL then AUDIO_BUFFER_SIZE else AUDIO_BUFFER_SIZE div 2)"

text \<open>
  One iteration of the \<^verbatim>\<open>while (1)\<close> of \<^verbatim>\<open>audio_processor_task\<close>: acquire the semaphore
  (\<open>None\<close>: the task stays blocked there), skip when not recording, otherwise pick
  the half from the current \<open>buffer_state\<close> and run the conversion loop.
\<close>

definition audio_processor_iteration :: "recorder_sys \<Rightarrow> recorder_sys option" where
  "audio_processor_iteration s =
     (case osSemaphoreAcquire (audio_semaphore (g_audio_recorder s)) osWaitForever of
        None \<Rightarrow> None
      | Some (status, sem') \<Rightarrow>
          let r = (g_audio_recorder s)\<lparr>audio_semaphore := sem'\<rparr> in
          if status \<noteq> osOK then Some (s\<lparr>g_audio_recorder := r\<rparr>)
          else if \<not> is_recording r then Some (s\<lparr>g_audio_recorder := r\<rparr>)
          else
            let st = buffer_state (audio_data r);
                d = convert_and_interleave (start_index st) (end_index st) (audio_data r)
            in Some (s\<lparr>g_audio_recorder := r\<lparr>audio_data := d\<rparr>,
                       rec_log := LOGD ''Processed audio samples from %lu to %lu'' (rec_log s)\<rparr>))"

text \<open>
  One iteration of the \<^verbatim>\<open>while (1)\<close> of \<^verbatim>\<open>audio_recorder_task\<close>: a blocking get on the
  event queue, then one semaphore release for a half or full event.
\<close>

definition audio_recorder_iteration :: "recorder_sys \<Rightarrow> recorder_sys option" where
  "audio_recorder_iteration s =
     (case osMessageQueueGet (audio_queue (g_audio_recorder s)) osWaitForever of
        None \<Rightarrow> None
      | Some (status, msg, q') \<Rightarrow>
          let r = (g_audio_recorder s)\<lparr>audio_queue := q'\<rparr> in
          if status \<noteq> osOK then Some (s\<lparr>g_audio_recorder := r\<rparr>)
          else
            (case msg of
               Some AUDIO_BUFFER_HALF_FULL \<Rightarrow>
                 Some (s\<lparr>g_audio_recorder := r\<lparr>audio_semaphore := snd (osSemaphoreRelease (audio_semaphore r))\<rparr>,
                         rec_log := LOGD ''Audio buffer half complete'' (rec_log s)\<rparr>)
             | Some AUDIO_BUFFER_FULL \<Rightarrow>
                 Some (s\<lparr>g_audio_recorder := r\<lparr>audio_semaphore := snd (osSemaphoreRelease (audio_semaphore r))\<rparr>,
                         rec_log := LOGD ''Audio buffer full complete'' (rec_log s)\<rparr>)
             | _ \<Rightarrow>
                 Some (s\<lparr>g_audio_recorder := r,
                         rec_log := LOGW ''Unknown buffer state: %d'' (rec_log s)\<rparr>)))"

text \<open>
  \<^verbatim>\<open>int_clamp\<close> of core\_util\_math.h, and the conversion as the specification words
  it: shift right by 8, then clamp to the 16-bit range, on the integers.
\<close>

definition int_clamp :: "int \<Rightarrow> int \<Rightarrow> int \<Rightarrow> int" where
  "int_clamp x mn mx = (if x < mn then mn else if x > mx then mx else x)"

definition spec_convert :: "int \<Rightarrow> int" where
  "spec_convert v = int_clamp (v div 2 ^ 8) (- 32768) 32767"

text \<open>
  The arrays of \<^verbatim>\<open>audio_data_t\<close> have fixed lengths in C; a list has them when it is
  well formed.
\<close>

definition audio_data_wf :: "audio_data_t \<Rightarrow> bool" where
  "audio_data_wf d \<longleftrightarrow>
     length (left_buffer d) = AUDIO_BUFFER_SIZE \<and>
     length (right_buffer d) = AUDIO_BUFFER_SIZE \<and>
     length (playback_buffer d) = AUDIO_BUFFER_SIZE * 2"

text \<open>
  A recorder that is recording, with one unit on the semaphore, the first half
  signalled, every left sample \<open>0x7FFFFFFF\<close> and every right sample \<open>0x80000000\<close>.
\<close>

definition scenario_recorder :: recorder_sys where
  "scenario_recorder =
     \<lparr>g_audio_recorder =
        \<lparr>audio_data =
           \<lparr>left_buffer = replicate AUDIO_BUFFER_SIZE 0x7FFFFFFF,
            right_buffer = replicate AUDIO_BUFFER_SIZE 0x80000000,
            playback_buffer = replicate (AUDIO_BUFFER_SIZE * 2) 0,
            buffer_state = AUDIO_BUFFER_HALF_FULL,
            buffer_index = 0\<rparr>,
         audio_semaphore = Some \<lparr>sem_id = 1, sem_max = 1, sem_count = 1\<rparr>,
         audio_queue = Some \<lparr>mq_id = 2, mq_capacity = 10, mq_msgs = []\<rparr>,
         is_recording = True\<rparr>,
      hw = \<lparr>dma_running = (\<lambda>f. True), hal_calls = []\<rparr>,
      rec_log = []\<rparr>"

text \<open>A recorder that is initialised and not recording, with no transfer running.\<close>

definition idle_recorder :: recorder_sys where
  "idle_recorder =
     \<lparr>g_audio_recorder =
        \<lparr>audio_data = zero_audio_data,
         audio_semaphore = Some \<lparr>sem_id = 1, sem_max = 1, sem_count = 0\<rparr>,
         audio_queue = Some \<lparr>mq_id = 2, mq_capacity = 10, mq_msgs = []\<rparr>,
         is_recording = False\<rparr>,
      hw = \<lparr>dma_running = (\<lambda>f. False), hal_calls = []\<rparr>,
      rec_log = []\<rparr>"


definition left_start_fails :: hal_results where
  "left_start_fails c =
     (if c = FilterRegularStart_DMA hdfsdm1_filter0 AUDIO_BUFFER_SIZE then HAL_ERROR else HAL_OK)"

text \<open>A recorder whose event queue is full.\<close>

definition full_queue_recorder :: recorder_sys where
  "full_queue_recorder =
     idle_recorder\<lparr>g_audio_recorder := (g_audio_recorder idle_recorder)
       \<lparr>audio_queue :=
          Some \<lparr>mq_id = 2, mq_capacity = 10,
                mq_msgs = replicate 10 (AUDIO_BUFFER_HALF_FULL, 0)\<rparr>\<rparr>\<rparr>"

section \<open>The thread pool (core\_thread.h, threadpool.c)\<close>

subsection \<open>Types\<close>

record ThreadPoolConfig =
  thread_count :: uint32_t
  queue_size :: uint32_t
  default_timeout :: uint32_t
  stack_size :: uint32_t
  low_power_mode :: bool
  default_thread_priority :: int

datatype ThreadPoolPriority =
  THREADPOOL_PRIORITY_LOW | THREADPOOL_PRIORITY_NORMAL
  | THREADPOOL_PRIORITY_HIGH | THREADPOOL_PRIORITY_CRITICAL

datatype ThreadPoolError =
  THREADPOOL_SUCCESS | THREADPOOL_ERROR_INVALID_ARG | THREADPOOL_ERROR_ALLOC
  | THREADPOOL_ERROR_QUEUE_CREATE | THREADPOOL_ERROR_THREAD_CREATE
  | THREADPOOL_ERROR_QUEUE_FULL | THREADPOOL_ERROR_SHUTDOWN
  | THREADPOOL_ERROR_NOT_INITIALIZED

datatype ThreadPoolState = THREADPOOL_RUNNING | THREADPOOL_SHUTTING_DOWN | THREADPOOL_STOPPED

text \<open>
  \<^verbatim>\<open>osPriority_t\<close> is an enumeration of cmsis\_os2.h, read as an integer;
  \<^verbatim>\<open>osPriorityNormal\<close> is 24 there.
\<close>

type_synonym osPriority_t = int

definition osPriorityNormal :: osPriority_t where
  "osPriorityNormal = 24"

text \<open>
  The task descriptor. A function pointer and the opaque argument are identifiers;
  \<^verbatim>\<open>NULL\<close> is \<open>None\<close>. The field \<^verbatim>\<open>function\<close> is named \<open>function_ptr\<close> here.
\<close>

record Task =
  function_ptr :: "handle option"
  arg :: "handle option"
  is_shutdown_signal :: bool
  priority :: ThreadPoolPriority
  execution_priority :: osPriority_t

text \<open>
  A worker thread of the RTOS running \<^verbatim>\<open>worker_thread_function\<close>: its identifier, its
  current scheduling priority, the local \<^verbatim>\<open>default_priority\<close>, and where it stands in
  the function. \<open>WAIT_TASK\<close>: in the blocking \<^verbatim>\<open>osMessageQueueGet\<close>. \<open>GOT_TASK\<close>: an
  ordinary task is dequeued, the counter is not yet incremented. \<open>RUN_TASK\<close>: the
  counter is incremented and the task body runs (the flag is \<^verbatim>\<open>priority_changed\<close>).
  \<open>EXITED\<close>: the loop is left.
\<close>

datatype worker_pc = WAIT_TASK | GOT_TASK Task | RUN_TASK Task bool | EXITED

record worker_thread =
  thread_id :: handle
  thread_priority :: osPriority_t
  default_priority :: osPriority_t
  pc :: worker_pc

text \<open>
  A pointer to a heap block is the address of the block together with its content;
  \<^verbatim>\<open>NULL\<close> is \<open>None\<close>. A handle of a queue or of a thread is the object itself, which
  carries its identifier.
\<close>

type_synonym 'a ptr = "(handle \<times> 'a) option"

record ThreadPoolInternal =
  task_queue :: "Task msg_queue option"
  worker_threads :: "worker_thread option list ptr"
  thread_count :: uint32_t
  state :: ThreadPoolState
  state_mutex :: "handle option"
  active_tasks :: uint32_t
  active_tasks_mutex :: "handle option"
  main_thread :: "handle option"
  low_power_mode :: bool
  config :: ThreadPoolConfig

subsection \<open>The RTOS and the heap as a registry of live objects\<close>

text \<open>
  Modelled from the spec: object creation and deletion of the RTOS and of the heap
  (\<^verbatim>\<open>pvPortMalloc\<close>, \<^verbatim>\<open>vPortFree\<close>, \<^verbatim>\<open>osMutexNew\<close>, \<^verbatim>\<open>osMutexDelete\<close>,
  \<^verbatim>\<open>osMessageQueueNew\<close>, \<^verbatim>\<open>osMessageQueueDelete\<close>, \<^verbatim>\<open>osThreadNew\<close>,
  \<^verbatim>\<open>osThreadSuspend\<close>, \<^verbatim>\<open>osThreadResume\<close>, and the end of a thread whose function
  returns), not part of the sources. The registry
  holds the identifiers of the live heap blocks, mutexes, queues and threads. A
  creation either fails (returns \<^verbatim>\<open>NULL\<close>) or returns a fresh identifier and registers
  it; which of the two is decided outside the program, by \<open>create_results\<close>: the
  outcomes of the creation calls to come, in order (every call succeeds once the list
  is used up). A deletion removes the identifier. \<open>suspended\<close> holds the threads that
  are suspended, \<open>resume_calls\<close> counts the calls of \<^verbatim>\<open>osThreadResume\<close>.
\<close>

record rtos =
  heap_blocks :: "handle set"
  mutexes :: "handle set"
  queues :: "handle set"
  threads :: "handle set"
  next_handle :: handle
  create_results :: "bool list"
  suspended :: "handle set"
  resume_calls :: nat

definition next_create :: "rtos \<Rightarrow> bool \<times> rtos" where
  "next_create os =
     (case create_results os of
        [] \<Rightarrow> (True, os)
      | ok # rest \<Rightarrow> (ok, os\<lparr>create_results := rest\<rparr>))"

definition pvPortMalloc :: "rtos \<Rightarrow> handle option \<times> rtos" where
  "pvPortMalloc os =
     (let (ok, os1) = next_create os in
      if ok
      then (Some (next_handle os1),
            os1\<lparr>heap_blocks := insert (next_handle os1) (heap_blocks os1),
                next_handle := Suc (next_handle os1)\<rparr>)
      else (None, os1))"

definition vPortFree :: "handle \<Rightarrow> rtos \<Rightarrow> rtos" where
  "vPortFree h os = os\<lparr>heap_blocks := heap_blocks os - {h}\<rparr>"

definition osMutexNew :: "rtos \<Rightarrow> handle option \<times> rtos" where
  "osMutexNew os =
     (let (ok, os1) = next_create os in
      if ok
      then (Some (next_handle os1),
            os1\<lparr>mutexes := insert (next_handle os1) (mutexes os1),
                next_handle := Suc (next_handle os1)\<rparr>)
      else (None, os1))"

definition osMutexDelete :: "handle \<Rightarrow> rtos \<Rightarrow> rtos" where
  "osMutexDelete h os = os\<lparr>mutexes := mutexes os - {h}\<rparr>"

definition osMessageQueueNew :: "nat \<Rightarrow> rtos \<Rightarrow> 'a msg_queue option \<times> rtos" where
  "osMessageQueueNew msg_count os =
     (let (ok, os1) = next_create os in
      if ok
      then (Some \<lparr>mq_id = next_handle os1, mq_capacity = msg_count, mq_msgs = []\<rparr>,
            os1\<lparr>queues := insert (next_handle os1) (queues os1),
                next_handle := Suc (next_handle os1)\<rparr>)
      else (None, os1))"

definition osMessageQueueDelete :: "'a msg_queue \<Rightarrow> rtos \<Rightarrow> rtos" where
  "osMessageQueueDelete q os = os\<lparr>queues := queues os - {mq_id q}\<rparr>"

text \<open>
  A new thread starts \<^verbatim>\<open>worker_thread_function\<close>: it reads its own priority into
  \<^verbatim>\<open>default_priority\<close> and enters the loop.
\<close>

definition osThreadNew :: "osPriority_t \<Rightarrow> rtos \<Rightarrow> worker_thread option \<times> rtos" where
  "osThreadNew prio os =
     (let (ok, os1) = next_create os in
      if ok
      then (Some \<lparr>thread_id = next_handle os1, thread_priority = prio,
                   default_priority = prio, pc = WAIT_TASK\<rparr>,
            os1\<lparr>threads := insert (next_handle os1) (threads os1),
                next_handle := Suc (next_handle os1)\<rparr>)
      else (None, os1))"

definition osThreadExit :: "handle \<Rightarrow> rtos \<Rightarrow> rtos" where
  "osThreadExit h os = os\<lparr>threads := threads os - {h}\<rparr>"

definition osThreadSuspend :: "handle \<Rightarrow> rtos \<Rightarrow> rtos" where
  "osThreadSuspend h os = os\<lparr>suspended := insert h (suspended os)\<rparr>"

definition osThreadResume :: "handle \<Rightarrow> rtos \<Rightarrow> rtos" where
  "osThreadResume h os =
     os\<lparr>suspended := suspended os - {h}, resume_calls := Suc (resume_calls os)\<rparr>"

subsection \<open>The state of the pool module\<close>

text \<open>
  \<^verbatim>\<open>core_thread_deinit\<close> blocks in several places (the polling loop, the puts, the
  delay) while the workers go on. Its progress is part of the state: not running,
  polling the counter, about to post the signal for worker \<open>i\<close>, about to release the
  resources.
\<close>

datatype destroy_pc = NOT_DESTROYING | WAIT_ACTIVE | SEND_SIGNAL nat | CLEAN_UP

text \<open>
  \<^verbatim>\<open>core_thread_wait_and_suspend\<close> releases \<open>active_tasks_mutex\<close> after it has read
  the counter into its local \<open>has_active_tasks\<close>, and decides on the suspension
  afterwards; other threads can run in between. The local of every thread that stands
  between the two is part of the state.
\<close>

record pool_sys =
  g_threadpool :: "ThreadPoolInternal ptr"
  os :: rtos
  pool_log :: log
  destroying :: destroy_pc
  has_active_tasks :: "handle \<rightharpoonup> bool"

definition convert_priority :: "ThreadPoolPriority \<Rightarrow> uint8_t" where
  "convert_priority p =
     (case p of
        THREADPOOL_PRIORITY_LOW \<Rightarrow> 0
      | THREADPOOL_PRIORITY_NORMAL \<Rightarrow> 1
      | THREADPOOL_PRIORITY_HIGH \<Rightarrow> 2
      | THREADPOOL_PRIORITY_CRITICAL \<Rightarrow> 3)"

subsection \<open>Construction\<close>

text \<open>The code after the label \<^verbatim>\<open>error\<close> of \<^verbatim>\<open>create_threadpool_internal\<close>.\<close>

definition create_error :: "handle \<Rightarrow> ThreadPoolInternal \<Rightarrow> pool_sys \<Rightarrow> pool_sys" where
  "create_error addr pool s =
     (let os1 = (case task_queue pool of Some q \<Rightarrow> osMessageQueueDelete q (os s) | None \<Rightarrow> os s);
          os2 = (case state_mutex pool of Some m \<Rightarrow> osMutexDelete m os1 | None \<Rightarrow> os1);
          os3 = (case active_tasks_mutex pool of Some m \<Rightarrow> osMutexDelete m os2 | None \<Rightarrow> os2);
          os4 = (case worker_threads pool of Some (wa, ws) \<Rightarrow> vPortFree wa os3 | None \<Rightarrow> os3)
      in s\<lparr>os := vPortFree addr os4\<rparr>)"

definition set_worker :: "nat \<Rightarrow> worker_thread option \<Rightarrow> ThreadPoolInternal \<Rightarrow> ThreadPoolInternal" where
  "set_worker i w pool =
     pool\<lparr>worker_threads := map_option (\<lambda>(wa, ws). (wa, ws[i := w])) (worker_threads pool)\<rparr>"

text \<open>
  The loop creating the workers, from index \<open>i\<close>. The boolean is false when a
  creation failed (the \<^verbatim>\<open>goto error\<close>).
\<close>

function create_worker_threads ::
  "nat \<Rightarrow> ThreadPoolConfig \<Rightarrow> ThreadPoolInternal \<Rightarrow> pool_sys
    \<Rightarrow> bool \<times> ThreadPoolInternal \<times> pool_sys" where
  "create_worker_threads i cfg pool s =
     (if i < unat (ThreadPoolConfig.thread_count cfg)
      then
        (case osThreadNew (default_thread_priority cfg) (os s) of
           (None, os1) \<Rightarrow>
             (False, set_worker i None pool,
              s\<lparr>os := os1, pool_log := LOGE ''Failed to create worker thread %lu'' (pool_log s)\<rparr>)
         | (Some w, os1) \<Rightarrow>
             create_worker_threads (i + 1) cfg (set_worker i (Some w) pool) (s\<lparr>os := os1\<rparr>))
      else (True, pool, s))"
  by pat_completeness auto
termination
  by (relation "measure (\<lambda>(i, cfg, pool, s). unat (ThreadPoolConfig.thread_count cfg) - i)") auto

declare create_worker_threads.simps [simp del]

text \<open>
  \<^verbatim>\<open>create_threadpool_internal\<close>. \<open>self\<close> is what \<^verbatim>\<open>osThreadGetId\<close> returns to the
  caller.
\<close>

definition create_threadpool_internal ::
  "ThreadPoolConfig option \<Rightarrow> handle option \<Rightarrow> pool_sys \<Rightarrow> ThreadPoolInternal ptr \<times> pool_sys" where
  "create_threadpool_internal config_p self s =
     (case config_p of
        None \<Rightarrow> (None, s\<lparr>pool_log := LOGE ''Invalid ThreadPool configuration'' (pool_log s)\<rparr>)
      | Some cfg \<Rightarrow>
          if ThreadPoolConfig.thread_count cfg = 0 \<or> queue_size cfg = 0 \<or> stack_size cfg = 0
          then (None, s\<lparr>pool_log := LOGE ''Invalid ThreadPool configuration'' (pool_log s)\<rparr>)
          else
            (case pvPortMalloc (os s) of
               (None, os1) \<Rightarrow>
                 (None, s\<lparr>os := os1,
                          pool_log := LOGE ''Failed to allocate ThreadPool memory'' (pool_log s)\<rparr>)
             | (Some addr, os1) \<Rightarrow>
                 let pool0 =
                       \<lparr>task_queue = None, worker_threads = None,
                        thread_count = ThreadPoolConfig.thread_count cfg,
                        state = THREADPOOL_RUNNING, state_mutex = None,
                        active_tasks = 0, active_tasks_mutex = None,
                        main_thread = (if ThreadPoolConfig.low_power_mode cfg then self else None),
                        low_power_mode = ThreadPoolConfig.low_power_mode cfg,
                        config = cfg\<rparr>;
                     (m1, os2) = osMutexNew os1;
                     (m2, os3) = osMutexNew os2;
                     pool1 = pool0\<lparr>state_mutex := m1, active_tasks_mutex := m2\<rparr>;
                     s1 = s\<lparr>os := os3\<rparr>
                 in
                   if m1 = None \<or> m2 = None
                   then (None, create_error addr pool1
                           (s1\<lparr>pool_log := LOGE ''Failed to create ThreadPool mutexes'' (pool_log s1)\<rparr>))
                   else
                     let (q, os4) = osMessageQueueNew (unat (queue_size cfg)) (os s1);
                         pool2 = pool1\<lparr>task_queue := q\<rparr>;
                         s2 = s1\<lparr>os := os4\<rparr>
                     in
                       if q = None
                       then (None, create_error addr pool2
                               (s2\<lparr>pool_log := LOGE ''Failed to create ThreadPool task queue'' (pool_log s2)\<rparr>))
                       else
                         let (arr, os5) = pvPortMalloc (os s2);
                             pool3 = pool2\<lparr>worker_threads :=
                                       map_option
                                         (\<lambda>wa. (wa, replicate (unat (ThreadPoolConfig.thread_count cfg)) None))
                                         arr\<rparr>;
                             s3 = s2\<lparr>os := os5\<rparr>
                         in
                           if arr = None
                           then (None, create_error addr pool3
                                   (s3\<lparr>pool_log := LOGE ''Failed to allocate worker threads array'' (pool_log s3)\<rparr>))
                           else
                             (case create_worker_threads 0 cfg pool3 s3 of
                                (False, pool4, s4) \<Rightarrow> (None, create_error addr pool4 s4)
                              | (True, pool4, s4) \<Rightarrow>
                                  (Some (addr, pool4),
                                   s4\<lparr>pool_log :=
                                        LOGI ''ThreadPool created: %lu threads, queue size: %lu'' (pool_log s4)\<rparr>))))"

subsection \<open>The worker\<close>

text \<open>
  One step of worker \<open>i\<close> of the pool, each taken atomically: the dequeue (on a
  shutdown task the loop is left, the function returns and the thread ends); the
  increment of the counter (under its mutex) with the priority change; the return of
  the task body with the priority restored, the decrement and the low-power check
  (decrement and check under the one mutex). A worker whose get blocks, or fails, makes
  no progress. The worker receives the pool as its argument; the pool is the one
  \<^verbatim>\<open>g_threadpool\<close> points to. A worker whose pool has been released makes no step
  here: what the code does through a dangling pool pointer is undefined in C.
\<close>

definition update_worker :: "nat \<Rightarrow> worker_thread \<Rightarrow> ThreadPoolInternal \<Rightarrow> ThreadPoolInternal" where
  "update_worker i w pool = set_worker i (Some w) pool"

definition worker_thread_function :: "nat \<Rightarrow> pool_sys \<Rightarrow> pool_sys" where
  "worker_thread_function i s =
     (case g_threadpool s of
        None \<Rightarrow> s
      | Some (addr, pool) \<Rightarrow>
          (case worker_threads pool of
             None \<Rightarrow> s
           | Some (wa, ws) \<Rightarrow>
               if \<not> i < length ws then s
               else
                 (case ws ! i of
                    None \<Rightarrow> s
                  | Some w \<Rightarrow>
                      (case pc w of
                         WAIT_TASK \<Rightarrow>
                           (case osMessageQueueGet (task_queue pool) osWaitForever of
                              None \<Rightarrow> s
                            | Some (status, msg, q') \<Rightarrow>
                                (case msg of
                                   None \<Rightarrow> s
                                 | Some task \<Rightarrow>
                                     if status \<noteq> osOK then s
                                     else if is_shutdown_signal task
                                     then
                                       s\<lparr>g_threadpool :=
                                           Some (addr, update_worker i (w\<lparr>pc := EXITED\<rparr>)
                                                         (pool\<lparr>task_queue := q'\<rparr>)),
                                         os := osThreadExit (thread_id w) (os s)\<rparr>
                                     else
                                       s\<lparr>g_threadpool :=
                                           Some (addr, update_worker i (w\<lparr>pc := GOT_TASK task\<rparr>)
                                                         (pool\<lparr>task_queue := q'\<rparr>))\<rparr>))
                       | GOT_TASK task \<Rightarrow>
                           let pool1 = pool\<lparr>active_tasks := active_tasks pool + 1\<rparr>;
                               priority_changed = (execution_priority task \<noteq> default_priority w);
                               w1 = (if priority_changed
                                     then w\<lparr>thread_priority := execution_priority task\<rparr> else w)
                           in s\<lparr>g_threadpool :=
                                  Some (addr, update_worker i (w1\<lparr>pc := RUN_TASK task priority_changed\<rparr>) pool1),
                                pool_log :=
                                  LOGD ''[%p] Start: active_tasks: %d, queue_size: %d/%d'' (pool_log s)\<rparr>
                       | RUN_TASK task priority_changed \<Rightarrow>
                           let w1 = (if priority_changed
                                     then w\<lparr>thread_priority := default_priority w\<rparr> else w);
                               pool1 = pool\<lparr>active_tasks := active_tasks pool - 1\<rparr>;
                               os1 = (case main_thread pool1 of
                                        Some m \<Rightarrow>
                                          if low_power_mode pool1 \<and> active_tasks pool1 = 0 \<and>
                                             state pool1 = THREADPOOL_RUNNING
                                          then osThreadResume m (os s) else os s
                                      | None \<Rightarrow> os s)
                           in s\<lparr>g_threadpool := Some (addr, update_worker i (w1\<lparr>pc := WAIT_TASK\<rparr>) pool1),
                                os := os1,
                                pool_log :=
                                  LOGD ''[%p] Stop : active_tasks: %d, queue_size: %d/%d'' (pool_log s)\<rparr>
                       | EXITED \<Rightarrow> s))))"

subsection \<open>Teardown\<close>

text \<open>
  \<^verbatim>\<open>destroy_threadpool_internal\<close>, in the steps between which other threads run.
  \<open>destroy_begin\<close>: the state change, up to the polling loop. \<open>destroy_step\<close>: one
  poll of the counter (it stays in \<open>WAIT_ACTIVE\<close> while the counter is not zero);
  one iteration of the loop posting the shutdown tasks (a put with priority 255 and
  timeout 100 whose status is ignored); the release of the resources, after which
  \<^verbatim>\<open>core_thread_deinit\<close> sets \<^verbatim>\<open>g_threadpool\<close> to \<^verbatim>\<open>NULL\<close>. The state \<open>STOPPED\<close>
  is stored in the pool block just before the block is freed, so no one reads it there;
  afterwards \<^verbatim>\<open>core_thread_get_state\<close> answers from the \<^verbatim>\<open>NULL\<close> pointer.
\<close>

definition shutdown_task :: Task where
  "shutdown_task =
     \<lparr>function_ptr = None, arg = None, is_shutdown_signal = True,
      priority = THREADPOOL_PRIORITY_LOW, execution_priority = 0\<rparr>"

definition after_wait :: "ThreadPoolInternal \<Rightarrow> destroy_pc" where
  "after_wait pool =
     (if task_queue pool \<noteq> None \<and> worker_threads pool \<noteq> None then SEND_SIGNAL 0 else CLEAN_UP)"

definition destroy_begin :: "bool \<Rightarrow> pool_sys \<Rightarrow> pool_sys" where
  "destroy_begin wait_for_tasks s =
     (case g_threadpool s of
        None \<Rightarrow> s
      | Some (addr, pool) \<Rightarrow>
          let pool1 = (if state_mutex pool \<noteq> None
                       then pool\<lparr>state := THREADPOOL_SHUTTING_DOWN\<rparr> else pool)
          in s\<lparr>g_threadpool := Some (addr, pool1),
               pool_log := LOGI ''Destroying ThreadPool (wait: %s)'' (pool_log s),
               destroying :=
                 (if wait_for_tasks \<and> active_tasks_mutex pool1 \<noteq> None
                  then WAIT_ACTIVE else after_wait pool1)\<rparr>)"

definition destroy_step :: "pool_sys \<Rightarrow> pool_sys" where
  "destroy_step s =
     (case g_threadpool s of
        None \<Rightarrow> s
      | Some (addr, pool) \<Rightarrow>
          (case destroying s of
             NOT_DESTROYING \<Rightarrow> s
           | WAIT_ACTIVE \<Rightarrow>
               if active_tasks pool = 0 then s\<lparr>destroying := after_wait pool\<rparr> else s
           | SEND_SIGNAL i \<Rightarrow>
               if i < unat (thread_count pool)
               then
                 let q' = (if (case worker_threads pool of
                                 Some (wa, ws) \<Rightarrow> i < length ws \<and> ws ! i \<noteq> None
                               | None \<Rightarrow> False)
                           then (case osMessageQueuePut (task_queue pool) shutdown_task 255 100 of
                                   Some (status, q1) \<Rightarrow> q1
                                 | None \<Rightarrow> task_queue pool)
                           else task_queue pool)
                 in s\<lparr>g_threadpool := Some (addr, pool\<lparr>task_queue := q'\<rparr>),
                      destroying := SEND_SIGNAL (i + 1)\<rparr>
               else s\<lparr>destroying := CLEAN_UP\<rparr>
           | CLEAN_UP \<Rightarrow>
               let os1 = (case task_queue pool of
                            Some q \<Rightarrow> osMessageQueueDelete q (os s) | None \<Rightarrow> os s);
                   os2 = (case state_mutex pool of Some m \<Rightarrow> osMutexDelete m os1 | None \<Rightarrow> os1);
                   os3 = (case active_tasks_mutex pool of
                            Some m \<Rightarrow> osMutexDelete m os2 | None \<Rightarrow> os2);
                   os4 = (case worker_threads pool of
                            Some (wa, ws) \<Rightarrow> vPortFree wa os3 | None \<Rightarrow> os3)
               in s\<lparr>g_threadpool := None,
                    os := vPortFree addr os4,
                    pool_log := LOGI ''ThreadPool deinitialized'' (pool_log s),
                    destroying := NOT_DESTROYING\<rparr>))"

subsection \<open>The public functions\<close>

definition core_thread_get_default_config :: ThreadPoolConfig where
  "core_thread_get_default_config =
     \<lparr>ThreadPoolConfig.thread_count = 4, queue_size = 20, default_timeout = 100,
      stack_size = 2048 * 4, ThreadPoolConfig.low_power_mode = True,
      default_thread_priority = osPriorityNormal\<rparr>"

definition core_thread_init_with_config ::
  "ThreadPoolConfig option \<Rightarrow> handle option \<Rightarrow> pool_sys \<Rightarrow> bool \<times> pool_sys" where
  "core_thread_init_with_config config_p self s =
     (if config_p = None
      then (False, s\<lparr>pool_log := LOGE ''Invalid ThreadPool configuration'' (pool_log s)\<rparr>)
      else if g_threadpool s \<noteq> None
      then (True, s\<lparr>pool_log := LOGI ''ThreadPool already initialized'' (pool_log s)\<rparr>)
      else
        (case create_threadpool_internal config_p self s of
           (None, s1) \<Rightarrow>
             (False, s1\<lparr>g_threadpool := None,
                        pool_log := LOGE ''Failed to initialize ThreadPool'' (pool_log s1)\<rparr>)
         | (Some p, s1) \<Rightarrow>
             (True, s1\<lparr>g_threadpool := Some p,
                       pool_log := LOGI ''ThreadPool initialized successfully'' (pool_log s1)\<rparr>)))"

definition core_thread_init :: "handle option \<Rightarrow> pool_sys \<Rightarrow> bool \<times> pool_sys" where
  "core_thread_init self s =
     (if g_threadpool s \<noteq> None
      then (True, s\<lparr>pool_log := LOGI ''ThreadPool already initialized'' (pool_log s)\<rparr>)
      else core_thread_init_with_config (Some core_thread_get_default_config) self s)"

text \<open>
  \<^verbatim>\<open>core_thread_deinit\<close>: the guard, then the teardown, which proceeds by
  \<open>destroy_step\<close>.
\<close>

definition core_thread_deinit :: "bool \<Rightarrow> pool_sys \<Rightarrow> pool_sys" where
  "core_thread_deinit wait_for_tasks s =
     (if g_threadpool s = None
      then s\<lparr>pool_log := LOGW ''ThreadPool not initialized'' (pool_log s)\<rparr>
      else destroy_begin wait_for_tasks s)"

text \<open>
  \<^verbatim>\<open>core_thread_add_task\<close>. \<open>new_task\<close> is the zeroed descriptor with its four
  assignments. The result is \<open>None\<close> while the caller is blocked in the put.
\<close>

definition new_task ::
  "handle option \<Rightarrow> handle option \<Rightarrow> ThreadPoolPriority \<Rightarrow> osPriority_t \<Rightarrow> Task" where
  "new_task function arg0 queue_priority execution_priority0 =
     \<lparr>function_ptr = function, arg = arg0, is_shutdown_signal = False,
      priority = queue_priority, execution_priority = execution_priority0\<rparr>"

definition core_thread_add_task ::
  "handle option \<Rightarrow> handle option \<Rightarrow> ThreadPoolPriority \<Rightarrow> osPriority_t \<Rightarrow> uint32_t
    \<Rightarrow> pool_sys \<Rightarrow> (ThreadPoolError \<times> pool_sys) option" where
  "core_thread_add_task function arg0 queue_priority execution_priority0 timeout_ms s =
     (case g_threadpool s of
        None \<Rightarrow> Some (THREADPOOL_ERROR_NOT_INITIALIZED, s)
      | Some (addr, pool) \<Rightarrow>
          if function = None then Some (THREADPOOL_ERROR_INVALID_ARG, s)
          else if state pool \<noteq> THREADPOOL_RUNNING then Some (THREADPOOL_ERROR_SHUTDOWN, s)
          else
            let task = new_task function arg0 queue_priority execution_priority0;
                msg_queue_priority = convert_priority queue_priority
            in
              (case osMessageQueuePut (task_queue pool) task msg_queue_priority timeout_ms of
                 None \<Rightarrow> None
               | Some (status, q') \<Rightarrow>
                   let s1 = s\<lparr>g_threadpool := Some (addr, pool\<lparr>task_queue := q'\<rparr>)\<rparr>
                   in
                     (case status of
                        osOK \<Rightarrow> Some (THREADPOOL_SUCCESS, s1)
                      | osErrorTimeout \<Rightarrow> Some (THREADPOOL_ERROR_QUEUE_FULL, s1)
                      | osErrorResource \<Rightarrow> Some (THREADPOOL_ERROR_QUEUE_FULL, s1)
                      | _ \<Rightarrow> Some (THREADPOOL_ERROR_QUEUE_FULL, s1))))"

definition core_thread_get_active_tasks_count :: "pool_sys \<Rightarrow> uint32_t" where
  "core_thread_get_active_tasks_count s =
     (case g_threadpool s of
        None \<Rightarrow> 0
      | Some (addr, pool) \<Rightarrow> if active_tasks_mutex pool = None then 0 else active_tasks pool)"

definition core_thread_get_active_tasks_count_wo_mutex :: "pool_sys \<Rightarrow> uint32_t" where
  "core_thread_get_active_tasks_count_wo_mutex s =
     (case g_threadpool s of
        None \<Rightarrow> 0
      | Some (addr, pool) \<Rightarrow> active_tasks pool)"

definition core_thread_is_idle :: "pool_sys \<Rightarrow> bool" where
  "core_thread_is_idle s \<longleftrightarrow> core_thread_get_active_tasks_count s = 0"

text \<open>
  \<^verbatim>\<open>core_thread_wait_and_suspend\<close>, called by the thread \<open>self\<close>, in its two atomic
  parts. \<open>wait_and_suspend_read\<close>: the guard and the read of the counter under
  \<open>active_tasks_mutex\<close>, up to the release of the mutex. \<open>wait_and_suspend_suspend\<close>: the
  rest, the test of the local and of \<open>main_thread\<close> and the call of
  \<^verbatim>\<open>osThreadSuspend\<close>; it dereferences \<open>g_threadpool\<close> again, which is undefined once the
  pool is gone (no step then). \<open>core_thread_wait_and_suspend\<close> is the call that no other
  thread interrupts.
\<close>

definition wait_and_suspend_read :: "handle \<Rightarrow> pool_sys \<Rightarrow> pool_sys" where
  "wait_and_suspend_read self s =
     (case g_threadpool s of
        None \<Rightarrow> s
      | Some (addr, pool) \<Rightarrow>
          if \<not> low_power_mode pool then s
          else s\<lparr>has_active_tasks := (has_active_tasks s)(self \<mapsto> 0 < active_tasks pool)\<rparr>)"

definition wait_and_suspend_suspend :: "handle \<Rightarrow> pool_sys \<Rightarrow> pool_sys" where
  "wait_and_suspend_suspend self s =
     (case has_active_tasks s self of
        None \<Rightarrow> s
      | Some active \<Rightarrow>
          (case g_threadpool s of
             None \<Rightarrow> s
           | Some (addr, pool) \<Rightarrow>
               let s1 = s\<lparr>has_active_tasks := (has_active_tasks s)(self := None)\<rparr>
               in (case main_thread pool of
                     Some m \<Rightarrow>
                       if active then s1\<lparr>os := osThreadSuspend m (os s1)\<rparr> else s1
                   | None \<Rightarrow> s1)))"

definition core_thread_wait_and_suspend :: "handle \<Rightarrow> pool_sys \<Rightarrow> pool_sys" where
  "core_thread_wait_and_suspend self s =
     wait_and_suspend_suspend self (wait_and_suspend_read self s)"

definition core_thread_get_state :: "pool_sys \<Rightarrow> ThreadPoolState" where
  "core_thread_get_state s =
     (case g_threadpool s of
        None \<Rightarrow> THREADPOOL_STOPPED
      | Some (addr, pool) \<Rightarrow> if state_mutex pool = None then THREADPOOL_STOPPED else state pool)"

subsection \<open>Runs of the system\<close>

text \<open>
  What the threads of the system can do to the pool, one atomic step at a time: a call
  of a public function by some thread, a step of a worker, a step of the teardown. A
  call of \<^verbatim>\<open>core_thread_add_task\<close> that blocks does not change the state. A second
  \<^verbatim>\<open>core_thread_deinit\<close> is not issued while one is in progress (its caller is still
  inside the first). A call of \<^verbatim>\<open>core_thread_wait_and_suspend\<close> by the thread \<open>self\<close> is
  two steps, \<open>WaitAndSuspend self\<close> up to the release of the mutex and \<open>SuspendStep self\<close>
  for the rest; the thread does not call again while it is between the two.
\<close>

datatype event =
  Init "ThreadPoolConfig option" "handle option"
  | AddTask "handle option" "handle option" ThreadPoolPriority osPriority_t uint32_t
  | Worker nat
  | WaitAndSuspend handle
  | SuspendStep handle
  | Deinit bool
  | DestroyStep

definition step :: "pool_sys \<Rightarrow> event \<Rightarrow> pool_sys" where
  "step s e =
     (case e of
        Init config_p self \<Rightarrow> snd (core_thread_init_with_config config_p self s)
      | AddTask function arg0 queue_priority execution_priority0 timeout_ms \<Rightarrow>
          (case core_thread_add_task function arg0 queue_priority execution_priority0 timeout_ms s of
             None \<Rightarrow> s
           | Some (err, s1) \<Rightarrow> s1)
      | Worker i \<Rightarrow> worker_thread_function i s
      | WaitAndSuspend self \<Rightarrow>
          if has_active_tasks s self = None then wait_and_suspend_read self s else s
      | SuspendStep self \<Rightarrow> wait_and_suspend_suspend self s
      | Deinit wait_for_tasks \<Rightarrow>
          if destroying s = NOT_DESTROYING then core_thread_deinit wait_for_tasks s else s
      | DestroyStep \<Rightarrow> destroy_step s)"

definition run :: "pool_sys \<Rightarrow> event list \<Rightarrow> pool_sys" where
  "run s evs = foldl step s evs"

text \<open>The system before any initialisation; the creation outcomes are given.\<close>

definition boot :: "bool list \<Rightarrow> pool_sys" where
  "boot results =
     \<lparr>g_threadpool = None,
      os = \<lparr>heap_blocks = {}, mutexes = {}, queues = {}, threads = {}, next_handle = 1,
            create_results = results, suspended = {}, resume_calls = 0\<rparr>,
      pool_log = [],
      destroying = NOT_DESTROYING,
      has_active_tasks = Map.empty\<rparr>"

subsection \<open>Notions used in the properties\<close>

text \<open>
  A worker executes a task body when it stands at \<open>RUN_TASK\<close>. \<open>pool_inv\<close>: the
  array has one entry per configured worker and the counter is the number of workers
  executing a task body. \<open>sys_inv\<close>: the pool, when there is one, satisfies it.
  \<open>fresh_workers\<close>: what the creation loop keeps (no worker executing, the counter
  zero, the queue empty). \<open>last_task_completes\<close>: with
  low-power mode on, a main thread recorded and the state \<open>RUNNING\<close>, the counter goes
  from one to zero between the two states.
\<close>

definition executing :: "worker_thread option \<Rightarrow> bool" where
  "executing w =
     (case w of
        None \<Rightarrow> False
      | Some x \<Rightarrow> (case pc x of RUN_TASK task priority_changed \<Rightarrow> True | _ \<Rightarrow> False))"

definition executing_workers :: "ThreadPoolInternal \<Rightarrow> nat" where
  "executing_workers pool =
     (case worker_threads pool of None \<Rightarrow> 0 | Some (wa, ws) \<Rightarrow> length (filter executing ws))"

definition worker_count :: "ThreadPoolInternal \<Rightarrow> nat" where
  "worker_count pool =
     (case worker_threads pool of None \<Rightarrow> 0 | Some (wa, ws) \<Rightarrow> length ws)"

definition pool_inv :: "ThreadPoolInternal \<Rightarrow> bool" where
  "pool_inv pool \<longleftrightarrow>
     worker_threads pool \<noteq> None \<and>
     worker_count pool = unat (thread_count pool) \<and>
     unat (active_tasks pool) = executing_workers pool"

definition sys_inv :: "pool_sys \<Rightarrow> bool" where
  "sys_inv s = (case g_threadpool s of None \<Rightarrow> True | Some (addr, pool) \<Rightarrow> pool_inv pool)"

definition fresh_workers :: "nat \<Rightarrow> ThreadPoolInternal \<Rightarrow> bool" where
  "fresh_workers n pool \<longleftrightarrow>
     worker_threads pool \<noteq> None \<and> worker_count pool = n \<and> executing_workers pool = 0 \<and>
     active_tasks pool = 0 \<and> unat (thread_count pool) = n \<and>
     (case task_queue pool of None \<Rightarrow> True | Some q \<Rightarrow> mq_msgs q = [])"

definition last_task_completes :: "pool_sys \<Rightarrow> pool_sys \<Rightarrow> bool" where
  "last_task_completes s s' =
     (case g_threadpool s of
        None \<Rightarrow> False
      | Some (addr, pool) \<Rightarrow>
          (case g_threadpool s' of
             None \<Rightarrow> False
           | Some (addr', pool') \<Rightarrow>
               low_power_mode pool \<and> main_thread pool \<noteq> None \<and>
               state pool = THREADPOOL_RUNNING \<and>
               active_tasks pool = 1 \<and> active_tasks pool' = 0))"

text \<open>
  For the teardown: the number of shutdown-tagged messages of a queue, its ordinary
  messages in queue order, whether every ordinary message has a priority below 255
  (\<open>queue_inv\<close>: the queue of the pool, when there is one, is such), whether the
  message at the head is shutdown-tagged; and the queue and the position of worker
  \<open>i\<close> of the pool, when there is a pool.
\<close>

definition shutdown_count :: "Task msg_queue \<Rightarrow> nat" where
  "shutdown_count q = length (filter (\<lambda>m. is_shutdown_signal (fst m)) (mq_msgs q))"

definition ordinary_msgs :: "Task msg_queue \<Rightarrow> (Task \<times> uint8_t) list" where
  "ordinary_msgs q = filter (\<lambda>m. \<not> is_shutdown_signal (fst m)) (mq_msgs q)"

definition ordinary_below_255 :: "Task msg_queue \<Rightarrow> bool" where
  "ordinary_below_255 q = list_all (\<lambda>m. is_shutdown_signal (fst m) \<or> snd m < 255) (mq_msgs q)"

definition queue_inv :: "pool_sys \<Rightarrow> bool" where
  "queue_inv s =
     (case g_threadpool s of
        None \<Rightarrow> True
      | Some (addr, pool) \<Rightarrow>
          (case task_queue pool of None \<Rightarrow> True | Some q \<Rightarrow> ordinary_below_255 q))"

definition head_is_shutdown :: "Task msg_queue \<Rightarrow> bool" where
  "head_is_shutdown q = (case mq_msgs q of [] \<Rightarrow> False | m # ms \<Rightarrow> is_shutdown_signal (fst m))"

definition queue_of :: "pool_sys \<Rightarrow> Task msg_queue option" where
  "queue_of s = (case g_threadpool s of None \<Rightarrow> None | Some (addr, pool) \<Rightarrow> task_queue pool)"

definition worker_pc_of :: "nat \<Rightarrow> pool_sys \<Rightarrow> worker_pc option" where
  "worker_pc_of i s =
     (case g_threadpool s of
        None \<Rightarrow> None
      | Some (addr, pool) \<Rightarrow>
          (case worker_threads pool of
             None \<Rightarrow> None
           | Some (wa, ws) \<Rightarrow> if i < length ws then map_option pc (ws ! i) else None))"

text \<open>
  \<open>in_call_of self e\<close>: the event is one of the two steps of a call of
  \<^verbatim>\<open>core_thread_wait_and_suspend\<close> by the thread \<open>self\<close>.
\<close>

definition in_call_of :: "handle \<Rightarrow> event \<Rightarrow> bool" where
  "in_call_of self e =
     (case e of
        WaitAndSuspend c \<Rightarrow> c = self
      | SuspendStep c \<Rightarrow> c = self
      | _ \<Rightarrow> False)"

subsection \<open>Example systems\<close>

text \<open>
  A pool with two workers and a queue of capacity one, both workers occupied by tasks
  that do not return, and the queue empty; and a submission of a low-priority task
  with timeout zero.
\<close>

definition small_config :: ThreadPoolConfig where
  "small_config =
     \<lparr>ThreadPoolConfig.thread_count = 2, queue_size = 1, default_timeout = 100,
      stack_size = 512, ThreadPoolConfig.low_power_mode = False,
      default_thread_priority = osPriorityNormal\<rparr>"

definition occupied_pool :: pool_sys where
  "occupied_pool =
     run (boot [])
       [Init (Some small_config) (Some 100),
        AddTask (Some 7) None THREADPOOL_PRIORITY_LOW osPriorityNormal 0, Worker 0, Worker 0,
        AddTask (Some 8) None THREADPOOL_PRIORITY_LOW osPriorityNormal 0, Worker 1, Worker 1]"

definition low_task :: event where
  "low_task = AddTask (Some 9) None THREADPOOL_PRIORITY_LOW osPriorityNormal 0"

text \<open>The state with the task queue of the pool replaced.\<close>

definition with_queue :: "pool_sys \<Rightarrow> Task msg_queue \<Rightarrow> pool_sys" where
  "with_queue s q =
     s\<lparr>g_threadpool :=
         map_option (\<lambda>(addr, pool). (addr, pool\<lparr>task_queue := Some q\<rparr>)) (g_threadpool s)\<rparr>"

text \<open>
  The pool above after a complete teardown that does not wait for the tasks: the
  call, the two posting steps, the end of the posting loop and the release.
\<close>

definition torn_down_pool :: pool_sys where
  "torn_down_pool =
     run occupied_pool [Deinit False, DestroyStep, DestroyStep, DestroyStep, DestroyStep]"

text \<open>
  Creation outcomes for \<open>small_config\<close>: the pool block, the two mutexes, the queue,
  the array and the first worker are created, the creation of the second worker fails.
\<close>

definition second_thread_fails :: "bool list" where
  "second_thread_fails = [True, True, True, True, True, True, False]"

text \<open>
  A pool in low-power mode created by thread 100, with one worker executing a task.
\<close>

definition low_power_config :: ThreadPoolConfig where
  "low_power_config = small_config\<lparr>ThreadPoolConfig.low_power_mode := True\<rparr>"

definition busy_low_power_pool :: pool_sys where
  "busy_low_power_pool =
     run (boot [])
       [Init (Some low_power_config) (Some 100),
        AddTask (Some 7) None THREADPOOL_PRIORITY_LOW osPriorityNormal 0, Worker 0, Worker 0]"

text \<open>
  The run on that pool in which thread 100 calls \<^verbatim>\<open>core_thread_wait_and_suspend\<close> and
  the worker completes its task between the two steps of the call. A pool in
  low-power mode created where \<^verbatim>\<open>osThreadGetId\<close> returned \<open>NULL\<close>, with one worker
  executing a task.
\<close>

definition completion_between :: pool_sys where
  "completion_between =
     run busy_low_power_pool [WaitAndSuspend 100, Worker 0, SuspendStep 100]"

definition no_main_thread_pool :: pool_sys where
  "no_main_thread_pool =
     run (boot [])
       [Init (Some low_power_config) None,
        AddTask (Some 7) None THREADPOOL_PRIORITY_LOW osPriorityNormal 0, Worker 0, Worker 0]"

text \<open>
  A pool with two occupied workers and a queue of capacity three holding one ordinary
  task; and the pool with capacity one whose queue is full with one ordinary task.
\<close>

definition roomy_config :: ThreadPoolConfig where
  "roomy_config = small_config\<lparr>queue_size := 3\<rparr>"

definition work_queued_pool :: pool_sys where
  "work_queued_pool =
     run (boot [])
       [Init (Some roomy_config) (Some 100),
        AddTask (Some 7) None THREADPOOL_PRIORITY_LOW osPriorityNormal 0, Worker 0, Worker 0,
        AddTask (Some 8) None THREADPOOL_PRIORITY_LOW osPriorityNormal 0, Worker 1, Worker 1,
        low_task]"

definition full_queue_pool :: pool_sys where
  "full_queue_pool = run occupied_pool [low_task]"

section \<open>Properties of the audio recorder\<close>

subsection \<open>The conversion loop\<close>

lemma convert_and_interleave_below:
  "k < 2 * i \<Longrightarrow> playback_buffer (convert_and_interleave i e d) ! k = playback_buffer d ! k"
proof (induction i e d arbitrary: k rule: convert_and_interleave.induct)
  case (1 i e d)
  show ?case
  proof (cases "i < e")
    case True
    let ?d = "d\<lparr>playback_buffer := (playback_buffer d)
                    [2 * i := convert_sample (left_buffer d ! i),
                     2 * i + 1 := convert_sample (right_buffer d ! i)]\<rparr>"
    have "playback_buffer (convert_and_interleave (i + 1) e ?d) ! k = playback_buffer ?d ! k"
      using "1.IH" [OF True, of k] "1.prems" by simp
    moreover have "playback_buffer ?d ! k = playback_buffer d ! k"
      using "1.prems" by simp
    ultimately show ?thesis using True by (subst convert_and_interleave.simps) simp
  next
    case False
    then show ?thesis by (subst convert_and_interleave.simps) simp
  qed
qed

lemma convert_and_interleave_range:
  "i0 \<le> i \<Longrightarrow> i < e \<Longrightarrow> 2 * e \<le> length (playback_buffer d) \<Longrightarrow>
   playback_buffer (convert_and_interleave i0 e d) ! (2 * i) = convert_sample (left_buffer d ! i) \<and>
   playback_buffer (convert_and_interleave i0 e d) ! (2 * i + 1) = convert_sample (right_buffer d ! i)"
proof (induction i0 e d rule: convert_and_interleave.induct)
  case (1 i0 e d)
  let ?d = "d\<lparr>playback_buffer := (playback_buffer d)
                    [2 * i0 := convert_sample (left_buffer d ! i0),
                     2 * i0 + 1 := convert_sample (right_buffer d ! i0)]\<rparr>"
  have lt: "i0 < e" using "1.prems" by simp
  have unf: "convert_and_interleave i0 e d = convert_and_interleave (i0 + 1) e ?d"
    using lt by (subst convert_and_interleave.simps) simp
  show ?case
  proof (cases "i = i0")
    case True
    have a: "playback_buffer (convert_and_interleave (i0 + 1) e ?d) ! (2 * i0) = playback_buffer ?d ! (2 * i0)"
      by (rule convert_and_interleave_below) simp
    have b: "playback_buffer (convert_and_interleave (i0 + 1) e ?d) ! (2 * i0 + 1) = playback_buffer ?d ! (2 * i0 + 1)"
      by (rule convert_and_interleave_below) simp
    have len: "2 * i0 + 1 < length (playback_buffer d)" using lt "1.prems" by simp
    show ?thesis using a b len True unf by simp
  next
    case False
    then have "i0 + 1 \<le> i" using "1.prems" by simp
    from "1.IH" [OF lt this] "1.prems" have
      "playback_buffer (convert_and_interleave (i0 + 1) e ?d) ! (2 * i) = convert_sample (left_buffer ?d ! i) \<and>
       playback_buffer (convert_and_interleave (i0 + 1) e ?d) ! (2 * i + 1) = convert_sample (right_buffer ?d ! i)"
      by simp
    then show ?thesis using unf by simp
  qed
qed

lemma sint_saturate_16:
  "sint (saturate_16 x) = int_clamp (sint x) (- 32768) 32767"
  by (simp add: saturate_16_def int_clamp_def word_sless_alt)

lemma ucast_down_sint:
  fixes x :: "32 word"
  assumes "- 32768 \<le> sint x" "sint x \<le> 32767"
  shows "sint (ucast x :: 16 word) = sint x"
proof -
  have eq: "(ucast x :: 16 word) = word_of_int (sint x)"
    by (rule bit_word_eqI) (auto simp add: bit_simps)
  have "sint (word_of_int (sint x) :: 16 word) = signed_take_bit (LENGTH(16) - 1) (sint x)"
    by (rule sint_sbintrunc')
  also have "\<dots> = sint x"
    using assms by (simp add: signed_take_bit_int_eq_self)
  finally show ?thesis using eq by simp
qed

lemma int_clamp_range: "- 32768 \<le> int_clamp v (- 32768) 32767 \<and> int_clamp v (- 32768) 32767 \<le> 32767"
  by (simp add: int_clamp_def)

lemma sint_convert_sample:
  "sint (convert_sample raw) = spec_convert (sint raw)"
proof -
  have "sint (convert_sample raw) = sint (saturate_16 (signed_drop_bit 8 raw))"
    unfolding convert_sample_def
    by (rule ucast_down_sint) (simp_all add: sint_saturate_16 int_clamp_range)
  also have "\<dots> = int_clamp (drop_bit 8 (sint raw)) (- 32768) 32767"
    by (simp add: sint_saturate_16 sint_signed_drop_bit_eq)
  also have "\<dots> = spec_convert (sint raw)"
    by (simp add: spec_convert_def drop_bit_eq_div)
  finally show ?thesis .
qed

text \<open>
  Claim C1. In every iteration of the processor task that converts a half buffer, for
  every index \<open>i\<close> of the selected range, the output at \<open>2 * i\<close> is the left sample
  shifted right by 8 and clamped to \<open>[-32768, 32767]\<close>, and the output at
  \<open>2 * i + 1\<close> is the same for the right sample, whatever the raw 32-bit values are.
  The raw samples \<open>0x7FFFFFFF\<close> and \<open>0x80000000\<close> convert to \<open>32767\<close> and \<open>-32768\<close>.
\<close>

theorem processor_converts_and_interleaves:
  assumes wf: "audio_data_wf (audio_data (g_audio_recorder s))"
    and sem: "audio_semaphore (g_audio_recorder s) = Some sem" "0 < sem_count sem"
    and rec: "is_recording (g_audio_recorder s)"
    and lo: "start_index (buffer_state (audio_data (g_audio_recorder s))) \<le> i"
    and hi: "i < end_index (buffer_state (audio_data (g_audio_recorder s)))"
  shows "\<exists>s'. audio_processor_iteration s = Some s' \<and>
           sint (playback_buffer (audio_data (g_audio_recorder s')) ! (2 * i)) =
             int_clamp (sint (left_buffer (audio_data (g_audio_recorder s)) ! i) div 2 ^ 8)
               (- 32768) 32767 \<and>
           sint (playback_buffer (audio_data (g_audio_recorder s')) ! (2 * i + 1)) =
             int_clamp (sint (right_buffer (audio_data (g_audio_recorder s)) ! i) div 2 ^ 8)
               (- 32768) 32767 \<and>
           sint (convert_sample 0x7FFFFFFF) = 32767 \<and>
           sint (convert_sample 0x80000000) = - 32768"
proof -
  let ?d = "audio_data (g_audio_recorder s)"
  let ?st = "buffer_state ?d"
  have "end_index ?st \<le> AUDIO_BUFFER_SIZE"
    by (simp add: end_index_def)
  then have len: "2 * end_index ?st \<le> length (playback_buffer ?d)"
    using wf by (simp add: audio_data_wf_def)
  from convert_and_interleave_range [OF lo hi len]
  have conv:
    "playback_buffer (convert_and_interleave (start_index ?st) (end_index ?st) ?d) ! (2 * i)
       = convert_sample (left_buffer ?d ! i)"
    "playback_buffer (convert_and_interleave (start_index ?st) (end_index ?st) ?d) ! (2 * i + 1)
       = convert_sample (right_buffer ?d ! i)"
    by simp_all
  have scen: "sint (convert_sample 0x7FFFFFFF) = 32767" "sint (convert_sample 0x80000000) = - 32768"
    by (simp_all add: sint_convert_sample spec_convert_def int_clamp_def)
  show ?thesis
    using sem rec conv scen
    by (simp add: audio_processor_iteration_def osSemaphoreAcquire_def Let_def
        sint_convert_sample spec_convert_def)
qed

lemma AUDIO_BUFFER_SIZE_half_pos: "0 < AUDIO_BUFFER_SIZE div 2"
  by (simp add: AUDIO_BUFFER_SIZE_def)

theorem processor_converts_and_interleaves_witness:
  "\<exists>s'. audio_processor_iteration scenario_recorder = Some s' \<and>
     sint (playback_buffer (audio_data (g_audio_recorder s')) ! 0) = 32767 \<and>
     sint (playback_buffer (audio_data (g_audio_recorder s')) ! 1) = - 32768"
proof -
  have pos: "0 < AUDIO_BUFFER_SIZE"
    using AUDIO_BUFFER_SIZE_half_pos by simp
  have wf: "audio_data_wf (audio_data (g_audio_recorder scenario_recorder))"
    by (simp add: scenario_recorder_def audio_data_wf_def)
  have sem: "audio_semaphore (g_audio_recorder scenario_recorder)
               = Some \<lparr>sem_id = 1, sem_max = 1, sem_count = 1\<rparr>"
    "0 < sem_count \<lparr>sem_id = 1, sem_max = 1, sem_count = 1\<rparr>"
    by (simp_all add: scenario_recorder_def)
  have rec: "is_recording (g_audio_recorder scenario_recorder)"
    by (simp add: scenario_recorder_def)
  have lo: "start_index (buffer_state (audio_data (g_audio_recorder scenario_recorder))) \<le> 0"
    by (simp add: scenario_recorder_def start_index_def)
  have hi: "0 < end_index (buffer_state (audio_data (g_audio_recorder scenario_recorder)))"
    using AUDIO_BUFFER_SIZE_half_pos by (simp add: scenario_recorder_def end_index_def)
  have l: "left_buffer (audio_data (g_audio_recorder scenario_recorder)) ! 0 = 0x7FFFFFFF"
    and r: "right_buffer (audio_data (g_audio_recorder scenario_recorder)) ! 0 = 0x80000000"
    using pos by (simp_all add: scenario_recorder_def)
  show ?thesis
    using processor_converts_and_interleaves [OF wf sem rec lo hi]
    by (auto simp add: l r int_clamp_def)
qed

subsection \<open>Start, stop and the interrupt callbacks\<close>

lemma mq_insert_prio0: "mq_insert (m, 0) xs = xs @ [(m, 0)]"
  by (induction xs) auto



text \<open>
  Claim C7. Each interrupt callback sets \<open>buffer_state\<close> to its own value and makes
  one put of its event with timeout zero: the call returns (it never blocks), the
  event is appended once when the queue has room, and the queue is unchanged when it
  is full (or absent). Nothing else changes.
\<close>

theorem callbacks_set_state_then_put_once:
  "audio_recorder_half_complete_callback s =
     Some (s\<lparr>g_audio_recorder := (g_audio_recorder s)
             \<lparr>audio_data := (audio_data (g_audio_recorder s))\<lparr>buffer_state := AUDIO_BUFFER_HALF_FULL\<rparr>,
              audio_queue :=
                map_option
                  (\<lambda>q. if length (mq_msgs q) < mq_capacity q
                       then q\<lparr>mq_msgs := mq_msgs q @ [(AUDIO_BUFFER_HALF_FULL, 0)]\<rparr> else q)
                  (audio_queue (g_audio_recorder s))\<rparr>\<rparr>) \<and>
   audio_recorder_full_complete_callback s =
     Some (s\<lparr>g_audio_recorder := (g_audio_recorder s)
             \<lparr>audio_data := (audio_data (g_audio_recorder s))\<lparr>buffer_state := AUDIO_BUFFER_FULL\<rparr>,
              audio_queue :=
                map_option
                  (\<lambda>q. if length (mq_msgs q) < mq_capacity q
                       then q\<lparr>mq_msgs := mq_msgs q @ [(AUDIO_BUFFER_FULL, 0)]\<rparr> else q)
                  (audio_queue (g_audio_recorder s))\<rparr>\<rparr>)"
  by (cases "audio_queue (g_audio_recorder s)")
     (simp_all add: audio_recorder_half_complete_callback_def
      audio_recorder_full_complete_callback_def notify_recorder_task_def set_buffer_state_def
      osMessageQueuePut_def mq_insert_prio0)

theorem callbacks_set_state_then_put_once_witness:
  "\<exists>s'. audio_recorder_full_complete_callback full_queue_recorder = Some s' \<and>
      buffer_state (audio_data (g_audio_recorder s')) = AUDIO_BUFFER_FULL \<and>
      audio_queue (g_audio_recorder s') = audio_queue (g_audio_recorder full_queue_recorder)"
  using callbacks_set_state_then_put_once [of full_queue_recorder]
  by (simp add: full_queue_recorder_def idle_recorder_def)

text \<open>
  Claim C9. Start on a recorder that is recording, and stop on one that is not, only
  write a warning to the log: the recorder (with \<open>is_recording\<close> and the buffers) and
  the hardware (no call issued) are unchanged.
\<close>

theorem start_and_stop_are_guarded:
  "(is_recording (g_audio_recorder s) \<longrightarrow>
      audio_recorder_start res s =
        s\<lparr>rec_log := LOGW ''Audio recording already started'' (rec_log s)\<rparr>) \<and>
   (\<not> is_recording (g_audio_recorder s) \<longrightarrow>
      audio_recorder_stop s =
        s\<lparr>rec_log := LOGW ''Audio recording not active'' (rec_log s)\<rparr>)"
  by (simp add: audio_recorder_start_def audio_recorder_stop_def)

theorem start_and_stop_are_guarded_witness:
  "g_audio_recorder (audio_recorder_start left_start_fails scenario_recorder)
     = g_audio_recorder scenario_recorder \<and>
   hw (audio_recorder_start left_start_fails scenario_recorder) = hw scenario_recorder \<and>
   g_audio_recorder (audio_recorder_stop idle_recorder) = g_audio_recorder idle_recorder \<and>
   hw (audio_recorder_stop idle_recorder) = hw idle_recorder"
proof -
  have a: "is_recording (g_audio_recorder scenario_recorder)"
    by (simp add: scenario_recorder_def)
  have b: "\<not> is_recording (g_audio_recorder idle_recorder)"
    by (simp add: idle_recorder_def)
  show ?thesis
    using start_and_stop_are_guarded [of scenario_recorder left_start_fails]
      start_and_stop_are_guarded [of idle_recorder left_start_fails] a b
    by simp
qed

section \<open>Properties of the thread pool\<close>

subsection \<open>Submission\<close>

text \<open>
  Claim C2. \<^verbatim>\<open>core_thread_add_task\<close> returns \<open>NOT_INITIALIZED\<close> without a pool;
  otherwise \<open>INVALID_ARG\<close> for a \<^verbatim>\<open>NULL\<close> function; otherwise \<open>SHUTDOWN\<close> when the state
  is not \<open>RUNNING\<close>; in these three cases nothing changes, so the task is not enqueued.
  Otherwise the task is put on the queue: with room it is enqueued at its priority
  and the result is \<open>SUCCESS\<close>; a put that ends its wait on a full queue returns
  \<open>QUEUE_FULL\<close> and leaves the queue as it is; with \<open>osWaitForever\<close> the caller stays
  blocked while the queue is full. With two workers, both occupied, and capacity one,
  of three low-priority submissions with timeout zero the third returns \<open>QUEUE_FULL\<close>.
\<close>

theorem add_task_results:
  "(g_threadpool s = None \<longrightarrow>
      core_thread_add_task f a qp ep t s = Some (THREADPOOL_ERROR_NOT_INITIALIZED, s)) \<and>
   (g_threadpool s = Some (addr, pool) \<and> f = None \<longrightarrow>
      core_thread_add_task f a qp ep t s = Some (THREADPOOL_ERROR_INVALID_ARG, s)) \<and>
   (g_threadpool s = Some (addr, pool) \<and> f \<noteq> None \<and> state pool \<noteq> THREADPOOL_RUNNING \<longrightarrow>
      core_thread_add_task f a qp ep t s = Some (THREADPOOL_ERROR_SHUTDOWN, s)) \<and>
   (g_threadpool s = Some (addr, pool) \<and> f \<noteq> None \<and> state pool = THREADPOOL_RUNNING \<and>
    task_queue pool = Some q \<longrightarrow>
      (length (mq_msgs q) < mq_capacity q \<longrightarrow>
         core_thread_add_task f a qp ep t s =
           Some (THREADPOOL_SUCCESS,
                 with_queue s
                   (q\<lparr>mq_msgs := mq_insert (new_task f a qp ep, convert_priority qp) (mq_msgs q)\<rparr>))) \<and>
      (\<not> length (mq_msgs q) < mq_capacity q \<and> t \<noteq> osWaitForever \<longrightarrow>
         core_thread_add_task f a qp ep t s = Some (THREADPOOL_ERROR_QUEUE_FULL, s)) \<and>
      (\<not> length (mq_msgs q) < mq_capacity q \<and> t = osWaitForever \<longrightarrow>
         core_thread_add_task f a qp ep t s = None)) \<and>
   map_option fst (core_thread_add_task (Some 9) None THREADPOOL_PRIORITY_LOW osPriorityNormal 0
     (run occupied_pool [low_task, low_task])) = Some THREADPOOL_ERROR_QUEUE_FULL"
proof -
  have scen: "map_option fst (core_thread_add_task (Some 9) None THREADPOOL_PRIORITY_LOW osPriorityNormal 0
     (run occupied_pool [low_task, low_task])) = Some THREADPOOL_ERROR_QUEUE_FULL"
    by code_simp
  have same: "g_threadpool s = Some (addr, pool) \<Longrightarrow> task_queue pool = Some q \<Longrightarrow>
      s\<lparr>g_threadpool := Some (addr, pool\<lparr>task_queue := Some q\<rparr>)\<rparr> = s" for addr pool q
    by (cases s, cases pool) simp
  show ?thesis
    using scen
    by (auto simp add: core_thread_add_task_def osMessageQueuePut_def Let_def with_queue_def
        new_task_def same osWaitForever_def)
qed

theorem add_task_results_witness:
  "core_thread_add_task (Some 9) None THREADPOOL_PRIORITY_LOW osPriorityNormal 0 (boot [])
     = Some (THREADPOOL_ERROR_NOT_INITIALIZED, boot []) \<and>
   core_thread_add_task None None THREADPOOL_PRIORITY_LOW osPriorityNormal 0 occupied_pool
     = Some (THREADPOOL_ERROR_INVALID_ARG, occupied_pool) \<and>
   core_thread_add_task (Some 9) None THREADPOOL_PRIORITY_LOW osPriorityNormal 0
      (run occupied_pool [Deinit False])
     = Some (THREADPOOL_ERROR_SHUTDOWN, run occupied_pool [Deinit False]) \<and>
   map_option fst
     (core_thread_add_task (Some 9) None THREADPOOL_PRIORITY_LOW osPriorityNormal 0 occupied_pool)
     = Some THREADPOOL_SUCCESS \<and>
   core_thread_add_task (Some 9) None THREADPOOL_PRIORITY_LOW osPriorityNormal 0
      (run occupied_pool [low_task])
     = Some (THREADPOOL_ERROR_QUEUE_FULL, run occupied_pool [low_task]) \<and>
   core_thread_add_task (Some 9) None THREADPOOL_PRIORITY_LOW osPriorityNormal osWaitForever
      (run occupied_pool [low_task]) = None"
proof -
  let ?s0 = "occupied_pool"
  let ?s1 = "run occupied_pool [Deinit False]"
  let ?s2 = "run occupied_pool [low_task]"
  have none: "g_threadpool (boot []) = None"
    by (simp add: boot_def)
  have p0: "g_threadpool ?s0 = Some (fst (the (g_threadpool ?s0)), snd (the (g_threadpool ?s0)))"
    by code_simp
  have p1: "g_threadpool ?s1 = Some (fst (the (g_threadpool ?s1)), snd (the (g_threadpool ?s1)))"
    by code_simp
  have p2: "g_threadpool ?s2 = Some (fst (the (g_threadpool ?s2)), snd (the (g_threadpool ?s2)))"
    by code_simp
  have st0: "state (snd (the (g_threadpool ?s0))) = THREADPOOL_RUNNING"
    by code_simp
  have st1: "state (snd (the (g_threadpool ?s1))) \<noteq> THREADPOOL_RUNNING"
    by code_simp
  have st2: "state (snd (the (g_threadpool ?s2))) = THREADPOOL_RUNNING"
    by code_simp
  have q0: "task_queue (snd (the (g_threadpool ?s0)))
              = Some (the (task_queue (snd (the (g_threadpool ?s0)))))"
    by code_simp
  have q2: "task_queue (snd (the (g_threadpool ?s2)))
              = Some (the (task_queue (snd (the (g_threadpool ?s2)))))"
    by code_simp
  have room0: "length (mq_msgs (the (task_queue (snd (the (g_threadpool ?s0))))))
                 < mq_capacity (the (task_queue (snd (the (g_threadpool ?s0)))))"
    by code_simp
  have full2: "\<not> length (mq_msgs (the (task_queue (snd (the (g_threadpool ?s2))))))
                 < mq_capacity (the (task_queue (snd (the (g_threadpool ?s2)))))"
    by code_simp
  have finite: "(0 :: uint32_t) \<noteq> osWaitForever"
    by (simp add: osWaitForever_def)
  note inst0 = add_task_results [where s = "boot []" and f = "Some 9" and a = None
      and qp = THREADPOOL_PRIORITY_LOW and ep = osPriorityNormal and t = 0]
  note inst1 = add_task_results [where s = ?s0 and f = None and a = None
      and qp = THREADPOOL_PRIORITY_LOW and ep = osPriorityNormal and t = 0
      and addr = "fst (the (g_threadpool ?s0))" and pool = "snd (the (g_threadpool ?s0))"]
  note inst2 = add_task_results [where s = ?s1 and f = "Some 9" and a = None
      and qp = THREADPOOL_PRIORITY_LOW and ep = osPriorityNormal and t = 0
      and addr = "fst (the (g_threadpool ?s1))" and pool = "snd (the (g_threadpool ?s1))"]
  note inst3 = add_task_results [where s = ?s0 and f = "Some 9" and a = None
      and qp = THREADPOOL_PRIORITY_LOW and ep = osPriorityNormal and t = 0
      and addr = "fst (the (g_threadpool ?s0))" and pool = "snd (the (g_threadpool ?s0))"
      and q = "the (task_queue (snd (the (g_threadpool ?s0))))"]
  note inst4 = add_task_results [where s = ?s2 and f = "Some 9" and a = None
      and qp = THREADPOOL_PRIORITY_LOW and ep = osPriorityNormal and t = 0
      and addr = "fst (the (g_threadpool ?s2))" and pool = "snd (the (g_threadpool ?s2))"
      and q = "the (task_queue (snd (the (g_threadpool ?s2))))"]
  note inst5 = add_task_results [where s = ?s2 and f = "Some 9" and a = None
      and qp = THREADPOOL_PRIORITY_LOW and ep = osPriorityNormal and t = osWaitForever
      and addr = "fst (the (g_threadpool ?s2))" and pool = "snd (the (g_threadpool ?s2))"
      and q = "the (task_queue (snd (the (g_threadpool ?s2))))"]
  have c0: "core_thread_add_task (Some 9) None THREADPOOL_PRIORITY_LOW osPriorityNormal 0 (boot [])
     = Some (THREADPOOL_ERROR_NOT_INITIALIZED, boot [])"
    using inst0 none by blast
  have c1: "core_thread_add_task None None THREADPOOL_PRIORITY_LOW osPriorityNormal 0 ?s0
     = Some (THREADPOOL_ERROR_INVALID_ARG, ?s0)"
    using inst1 p0 by blast
  have c2: "core_thread_add_task (Some 9) None THREADPOOL_PRIORITY_LOW osPriorityNormal 0 ?s1
     = Some (THREADPOOL_ERROR_SHUTDOWN, ?s1)"
    using inst2 p1 st1 by blast
  have c3: "map_option fst
     (core_thread_add_task (Some 9) None THREADPOOL_PRIORITY_LOW osPriorityNormal 0 ?s0)
     = Some THREADPOOL_SUCCESS"
    using inst3 p0 st0 q0 room0 by simp
  have c4: "core_thread_add_task (Some 9) None THREADPOOL_PRIORITY_LOW osPriorityNormal 0 ?s2
     = Some (THREADPOOL_ERROR_QUEUE_FULL, ?s2)"
    using inst4 p2 st2 q2 full2 finite by blast
  have c5: "core_thread_add_task (Some 9) None THREADPOOL_PRIORITY_LOW osPriorityNormal osWaitForever ?s2
     = None"
    using inst5 p2 st2 q2 full2 by blast
  show ?thesis
    using c0 c1 c2 c3 c4 c5 by blast
qed

subsection \<open>Queries without a pool\<close>

text \<open>
  Claim C10. When no pool exists, the queries return their defaults:
  \<^verbatim>\<open>core_thread_get_active_tasks_count\<close> and its variant without mutex return 0,
  \<^verbatim>\<open>core_thread_is_idle\<close> is true, \<^verbatim>\<open>core_thread_get_state\<close> is \<open>STOPPED\<close>, and
  \<^verbatim>\<open>core_thread_wait_and_suspend\<close> changes nothing (no thread is suspended). No pool
  exists before the initialisation and after the last step of a teardown.
\<close>

theorem queries_without_pool:
  "(g_threadpool s = None \<longrightarrow>
      core_thread_get_active_tasks_count s = 0 \<and>
      core_thread_get_active_tasks_count_wo_mutex s = 0 \<and>
      core_thread_is_idle s \<and>
      core_thread_get_state s = THREADPOOL_STOPPED \<and>
      core_thread_wait_and_suspend self s = s) \<and>
   g_threadpool (boot results) = None \<and>
   (destroying s = CLEAN_UP \<longrightarrow> g_threadpool (destroy_step s) = None)"
  by (auto simp add: core_thread_get_active_tasks_count_def
      core_thread_get_active_tasks_count_wo_mutex_def core_thread_is_idle_def
      core_thread_get_state_def core_thread_wait_and_suspend_def wait_and_suspend_read_def
      wait_and_suspend_suspend_def boot_def destroy_step_def Let_def split: option.splits)

theorem queries_without_pool_witness:
  "core_thread_get_active_tasks_count torn_down_pool = 0 \<and>
   core_thread_get_active_tasks_count_wo_mutex torn_down_pool = 0 \<and>
   core_thread_is_idle torn_down_pool \<and>
   core_thread_get_state torn_down_pool = THREADPOOL_STOPPED \<and>
   core_thread_wait_and_suspend 100 torn_down_pool = torn_down_pool"
proof -
  let ?s = "run occupied_pool [Deinit False, DestroyStep, DestroyStep, DestroyStep]"
  have "destroying ?s = CLEAN_UP"
    by code_simp
  then have "g_threadpool (destroy_step ?s) = None"
    using queries_without_pool [of ?s] by blast
  moreover have "destroy_step ?s = torn_down_pool"
    by (simp add: torn_down_pool_def run_def step_def)
  ultimately have "g_threadpool torn_down_pool = None"
    by simp
  then show ?thesis
    using queries_without_pool [of torn_down_pool] by blast
qed

subsection \<open>Construction failure\<close>

text \<open>
  Claim C4, at a failing input. With two workers configured and the creation of the
  second worker failing, \<^verbatim>\<open>create_threadpool_internal\<close> returns \<^verbatim>\<open>NULL\<close> and releases
  the pool block, the array, both mutexes and the queue; the first worker, already
  created, is not terminated: its thread stays registered.
\<close>

theorem create_failure_leaves_worker_thread:
  "fst (create_threadpool_internal (Some small_config) None (boot second_thread_fails)) = None \<and>
   heap_blocks (os (snd (create_threadpool_internal (Some small_config) None (boot second_thread_fails)))) = {} \<and>
   mutexes (os (snd (create_threadpool_internal (Some small_config) None (boot second_thread_fails)))) = {} \<and>
   queues (os (snd (create_threadpool_internal (Some small_config) None (boot second_thread_fails)))) = {} \<and>
   threads (os (snd (create_threadpool_internal (Some small_config) None (boot second_thread_fails)))) = {6}"
  by code_simp

subsection \<open>The active-task counter\<close>

lemma next_create_frame:
  "resume_calls (snd (next_create r)) = resume_calls r"
  by (simp add: next_create_def split: list.splits)

lemma creation_frame:
  "resume_calls (snd (pvPortMalloc r)) = resume_calls r"
  "resume_calls (snd (osMutexNew r)) = resume_calls r"
  "resume_calls (snd (osMessageQueueNew n r)) = resume_calls r"
  "resume_calls (snd (osThreadNew p r)) = resume_calls r"
  "resume_calls (vPortFree h r) = resume_calls r"
  "resume_calls (osMutexDelete h r) = resume_calls r"
  "resume_calls (osMessageQueueDelete q r) = resume_calls r"
  using next_create_frame [of r]
  by (auto simp add: pvPortMalloc_def osMutexNew_def osMessageQueueNew_def osThreadNew_def
      vPortFree_def osMutexDelete_def osMessageQueueDelete_def Let_def split: prod.splits)

lemma create_error_frame:
  "resume_calls (os (create_error addr pool s)) = resume_calls (os s)"
  by (simp add: create_error_def Let_def creation_frame split: option.splits prod.splits)

lemma fresh_workers_set_worker:
  "fresh_workers n pool \<Longrightarrow> \<not> executing w \<Longrightarrow> fresh_workers n (set_worker i w pool)"
proof -
  assume fresh: "fresh_workers n pool" and w: "\<not> executing w"
  obtain wa ws where ws: "worker_threads pool = Some (wa, ws)"
    using fresh by (auto simp add: fresh_workers_def)
  have "\<forall>x\<in>set ws. \<not> executing x"
    using fresh ws by (simp add: fresh_workers_def executing_workers_def filter_empty_conv)
  then have "\<forall>x\<in>set (ws[i := w]). \<not> executing x"
    using w set_update_subset_insert [of ws i w] by auto
  then show ?thesis
    using fresh ws
    by (simp add: fresh_workers_def set_worker_def worker_count_def executing_workers_def
        filter_empty_conv)
qed

lemma osThreadNew_not_executing:
  "osThreadNew p r = (Some w, r') \<Longrightarrow> \<not> executing (Some w)"
  by (auto simp add: osThreadNew_def executing_def Let_def split: prod.splits if_splits)

lemma create_worker_threads_props:
  "create_worker_threads i cfg pool s = (ok, pool', s') \<Longrightarrow>
   resume_calls (os s') = resume_calls (os s) \<and>
   (fresh_workers n pool \<longrightarrow> fresh_workers n pool')"
proof (induction i cfg pool s rule: create_worker_threads.induct)
  case (1 i cfg pool s)
  show ?case
  proof (cases "i < unat (ThreadPoolConfig.thread_count cfg)")
    case False
    then show ?thesis
      using "1.prems" by (subst (asm) create_worker_threads.simps) simp
  next
    case True
    obtain w os1 where new: "osThreadNew (default_thread_priority cfg) (os s) = (w, os1)"
      by (cases "osThreadNew (default_thread_priority cfg) (os s)")
    have fr: "resume_calls os1 = resume_calls (os s)"
      using creation_frame(4) [of "default_thread_priority cfg" "os s"] new by simp
    show ?thesis
    proof (cases w)
      case None
      have "\<not> executing None" by (simp add: executing_def)
      then show ?thesis
        using True new fr None "1.prems" fresh_workers_set_worker [of n pool None i]
        by (subst (asm) create_worker_threads.simps) auto
    next
      case (Some x)
      have nx: "\<not> executing (Some x)"
        using osThreadNew_not_executing new Some by blast
      have rec: "create_worker_threads (i + 1) cfg (set_worker i (Some x) pool) (s\<lparr>os := os1\<rparr>)
                   = (ok, pool', s')"
        using True new Some "1.prems" by (subst (asm) create_worker_threads.simps) simp
      from "1.IH" [OF True new [symmetric] Some rec]
      show ?thesis
        using fr fresh_workers_set_worker [OF _ nx, of n pool i] by auto
    qed
  qed
qed

lemma create_worker_threads_queue:
  "create_worker_threads i cfg pool s = (ok, pool', s') \<Longrightarrow> task_queue pool' = task_queue pool"
proof (induction i cfg pool s rule: create_worker_threads.induct)
  case (1 i cfg pool s)
  show ?case
  proof (cases "i < unat (ThreadPoolConfig.thread_count cfg)")
    case False
    then show ?thesis
      using "1.prems" by (subst (asm) create_worker_threads.simps) simp
  next
    case True
    obtain w os1 where new: "osThreadNew (default_thread_priority cfg) (os s) = (w, os1)"
      by (cases "osThreadNew (default_thread_priority cfg) (os s)")
    show ?thesis
    proof (cases w)
      case None
      then show ?thesis
        using True new "1.prems"
        by (subst (asm) create_worker_threads.simps) (auto simp add: set_worker_def)
    next
      case (Some x)
      have rec: "create_worker_threads (i + 1) cfg (set_worker i (Some x) pool) (s\<lparr>os := os1\<rparr>)
                   = (ok, pool', s')"
        using True new Some "1.prems" by (subst (asm) create_worker_threads.simps) simp
      from "1.IH" [OF True new [symmetric] Some rec]
      show ?thesis by (simp add: set_worker_def)
    qed
  qed
qed

lemma create_threadpool_internal_props:
  assumes "create_threadpool_internal c self s = (res, s')"
  shows "resume_calls (os s') = resume_calls (os s) \<and>
         (\<forall>addr pool. res = Some (addr, pool) \<longrightarrow>
            pool_inv pool \<and> (\<exists>q. task_queue pool = Some q \<and> mq_msgs q = []))"
proof (cases c)
  case None
  then show ?thesis using assms by (auto simp add: create_threadpool_internal_def)
next
  case (Some cfg)
  note c = this
  obtain b r1 where e1: "pvPortMalloc (os s) = (b, r1)"
    by (cases "pvPortMalloc (os s)")
  obtain m1 r2 where e2: "osMutexNew r1 = (m1, r2)"
    by (cases "osMutexNew r1")
  obtain m2 r3 where e3: "osMutexNew r2 = (m2, r3)"
    by (cases "osMutexNew r2")
  obtain q r4 where e4: "osMessageQueueNew (unat (queue_size cfg)) r3 = (q :: Task msg_queue option, r4)"
    by (cases "osMessageQueueNew (unat (queue_size cfg)) r3 :: Task msg_queue option \<times> rtos")
  obtain arr r5 where e5: "pvPortMalloc r4 = (arr, r5)"
    by (cases "pvPortMalloc r4")
  have f1: "resume_calls r1 = resume_calls (os s)"
    using creation_frame(1) [of "os s"] e1 by simp
  have f2: "resume_calls r2 = resume_calls (os s)"
    using creation_frame(2) [of r1] e2 f1 by simp
  have f3: "resume_calls r3 = resume_calls (os s)"
    using creation_frame(2) [of r2] e3 f2 by simp
  have f4: "resume_calls r4 = resume_calls (os s)"
    using creation_frame(3) [of "unat (queue_size cfg)" r3, where ?'a = Task] e4 f3 by simp
  have f5: "resume_calls r5 = resume_calls (os s)"
    using creation_frame(1) [of r4] e5 f4 by simp
  note eqs = e1 e2 e3 e4 e5
  note frs = f1 f2 f3 f4 f5 create_error_frame
  show ?thesis
  proof (cases "ThreadPoolConfig.thread_count cfg = 0 \<or> queue_size cfg = 0 \<or> stack_size cfg = 0")
    case True
    then show ?thesis
      using assms unfolding create_threadpool_internal_def c by auto
  next
    case valid: False
    show ?thesis
    proof (cases b)
      case None
      then show ?thesis
        using valid assms unfolding create_threadpool_internal_def c
        by (auto simp add: eqs frs)
    next
      case (Some addr)
      note b = this
      show ?thesis
      proof (cases "m1 = None \<or> m2 = None")
        case True
        then show ?thesis
          using valid b assms unfolding create_threadpool_internal_def c
          by (auto simp add: eqs frs Let_def split del: if_split)
      next
        case False
        then obtain y1 y2 where mut: "m1 = Some y1" "m2 = Some y2" by auto
        show ?thesis
        proof (cases q)
          case None
          then show ?thesis
            using valid b mut assms unfolding create_threadpool_internal_def c
            by (auto simp add: eqs frs Let_def split del: if_split)
        next
          case (Some qq)
          note q = this
          show ?thesis
          proof (cases arr)
            case None
            then show ?thesis
              using valid b mut q assms unfolding create_threadpool_internal_def c
              by (auto simp add: eqs frs Let_def split del: if_split)
          next
            case (Some wa)
            let ?pool3 = "\<lparr>task_queue = Some qq,
                worker_threads = Some (wa, replicate (unat (ThreadPoolConfig.thread_count cfg)) None),
                thread_count = ThreadPoolConfig.thread_count cfg,
                state = THREADPOOL_RUNNING, state_mutex = Some y1,
                active_tasks = 0, active_tasks_mutex = Some y2,
                main_thread = (if ThreadPoolConfig.low_power_mode cfg then self else None),
                low_power_mode = ThreadPoolConfig.low_power_mode cfg,
                config = cfg\<rparr>"
            obtain ok pool4 s4 where loop:
              "create_worker_threads 0 cfg ?pool3 (s\<lparr>os := r5\<rparr>) = (ok, pool4, s4)"
              by (cases "create_worker_threads 0 cfg ?pool3 (s\<lparr>os := r5\<rparr>)")
            have "mq_msgs qq = []"
              using e4 q by (auto simp add: osMessageQueueNew_def Let_def split: prod.splits if_splits)
            then have fresh: "fresh_workers (unat (ThreadPoolConfig.thread_count cfg)) ?pool3"
              by (simp add: fresh_workers_def worker_count_def executing_workers_def executing_def)
            from create_worker_threads_props [OF loop, of "unat (ThreadPoolConfig.thread_count cfg)"] fresh
            have p4: "resume_calls (os s4) = resume_calls (os s)" "fresh_workers (unat (ThreadPoolConfig.thread_count cfg)) pool4"
              using f5 by simp_all
            have q4: "task_queue pool4 = task_queue ?pool3"
              using create_worker_threads_queue [OF loop] .
            have inv: "pool_inv pool4 \<and> (\<exists>q. task_queue pool4 = Some q \<and> mq_msgs q = [])"
              using p4(2) q4 by (simp add: fresh_workers_def pool_inv_def)
            have "create_threadpool_internal c self s =
                   (if ok then (Some (addr, pool4),
                                s4\<lparr>pool_log := LOGI ''ThreadPool created: %lu threads, queue size: %lu'' (pool_log s4)\<rparr>)
                    else (None, create_error addr pool4 s4))"
              using valid b mut q Some loop unfolding create_threadpool_internal_def c
              by (cases ok) (simp_all add: eqs Let_def split del: if_split)
            then show ?thesis
              using assms p4 inv by (auto simp add: frs split: if_splits)
          qed
        qed
      qed
    qed
  qed
qed

lemma filter_update_count:
  "i < length xs \<Longrightarrow>
   length (filter P (xs[i := y])) + (if P (xs ! i) then 1 else 0)
     = length (filter P xs) + (if P y then 1 else 0)"
proof (induction xs arbitrary: i)
  case Nil
  then show ?case by simp
next
  case (Cons x xs)
  then show ?case by (cases i) auto
qed

lemma filter_count_less:
  "i < length xs \<Longrightarrow> \<not> P (xs ! i) \<Longrightarrow> length (filter P xs) < length xs"
  by (rule length_filter_less [of "xs ! i"]) simp_all

lemma filter_count_pos:
  "i < length xs \<Longrightarrow> P (xs ! i) \<Longrightarrow> 0 < length (filter P xs)"
  by (auto simp add: filter_empty_conv)

lemma pool_inv_same:
  assumes "pool_inv pool" "worker_threads pool = Some (wa, ws)" "i < length ws"
    and "executing (Some w) = executing (ws ! i)"
  shows "pool_inv (update_worker i w (pool\<lparr>task_queue := q\<rparr>))"
  using assms filter_update_count [of i ws executing "Some w"]
  by (auto simp add: pool_inv_def update_worker_def set_worker_def worker_count_def
      executing_workers_def)

lemma pool_inv_start:
  assumes "pool_inv pool" "worker_threads pool = Some (wa, ws)" "i < length ws"
    and "\<not> executing (ws ! i)" "executing (Some w)"
  shows "pool_inv (update_worker i w (pool\<lparr>active_tasks := active_tasks pool + 1\<rparr>))"
proof -
  have len: "length ws = unat (thread_count pool)"
    and act: "unat (active_tasks pool) = length (filter executing ws)"
    using assms(1,2) by (simp_all add: pool_inv_def worker_count_def executing_workers_def)
  have "length (filter executing ws) < length ws"
    using assms(3,4) by (rule filter_count_less)
  then have "unat (active_tasks pool) + 1 < 2 ^ 32"
    using act len unsigned_less [of "thread_count pool", where ?'a = nat] by simp
  then have "unat (active_tasks pool + 1) = unat (active_tasks pool) + 1"
    using unat_add_lem [of "active_tasks pool" 1] by simp
  moreover have "length (filter executing (ws[i := Some w])) = length (filter executing ws) + 1"
    using filter_update_count [of i ws executing "Some w"] assms(3,4,5) by simp
  ultimately show ?thesis
    using assms(2) len act
    by (simp add: pool_inv_def update_worker_def set_worker_def worker_count_def
        executing_workers_def)
qed

lemma pool_inv_finish:
  assumes "pool_inv pool" "worker_threads pool = Some (wa, ws)" "i < length ws"
    and "executing (ws ! i)" "\<not> executing (Some w)"
  shows "pool_inv (update_worker i w (pool\<lparr>active_tasks := active_tasks pool - 1\<rparr>))"
proof -
  have len: "length ws = unat (thread_count pool)"
    and act: "unat (active_tasks pool) = length (filter executing ws)"
    using assms(1,2) by (simp_all add: pool_inv_def worker_count_def executing_workers_def)
  have pos: "0 < length (filter executing ws)"
    using assms(3,4) by (rule filter_count_pos)
  then have "active_tasks pool \<noteq> 0"
    using act by auto
  then have "unat (active_tasks pool - 1) = unat (active_tasks pool) - 1"
    by (rule unat_minus_one)
  moreover have "length (filter executing (ws[i := Some w])) + 1 = length (filter executing ws)"
    using filter_update_count [of i ws executing "Some w"] assms(3,4,5) by simp
  ultimately show ?thesis
    using assms(2) len act pos
    by (simp add: pool_inv_def update_worker_def set_worker_def worker_count_def
        executing_workers_def)
qed

lemma worker_thread_function_inv:
  assumes inv: "sys_inv s"
  shows "sys_inv (worker_thread_function i s)"
proof (cases "g_threadpool s")
  case None
  then show ?thesis using inv by (simp add: worker_thread_function_def)
next
  case (Some p)
  obtain addr pool where p: "p = (addr, pool)" by (cases p)
  have pinv: "pool_inv pool" using inv Some p by (simp add: sys_inv_def)
  then obtain wa ws where ws: "worker_threads pool = Some (wa, ws)"
    by (auto simp add: pool_inv_def)
  note g = Some [unfolded p]
  show ?thesis
  proof (cases "i < length ws")
    case False
    then show ?thesis using inv g ws by (simp add: worker_thread_function_def)
  next
    case i: True
    show ?thesis
    proof (cases "ws ! i")
      case None
      then show ?thesis using inv g ws i by (simp add: worker_thread_function_def)
    next
      case (Some w)
      note w = this
      show ?thesis
      proof (cases "pc w")
        case WAIT_TASK
        have ne: "\<not> executing (ws ! i)" using w WAIT_TASK by (simp add: executing_def)
        have a: "pool_inv (update_worker i (w\<lparr>pc := EXITED\<rparr>) (pool\<lparr>task_queue := q\<rparr>))" for q
          by (rule pool_inv_same [OF pinv ws i]) (use ne in \<open>simp add: executing_def\<close>)
        have b: "pool_inv (update_worker i (w\<lparr>pc := GOT_TASK task\<rparr>) (pool\<lparr>task_queue := q\<rparr>))" for q task
          by (rule pool_inv_same [OF pinv ws i]) (use ne in \<open>simp add: executing_def\<close>)
        show ?thesis
          using inv g ws i w WAIT_TASK a b
          by (auto simp add: worker_thread_function_def sys_inv_def split: option.splits)
      next
        case (GOT_TASK task)
        have ne: "\<not> executing (ws ! i)" using w GOT_TASK by (simp add: executing_def)
        have a: "pool_inv (update_worker i (w'\<lparr>pc := RUN_TASK task c\<rparr>)
                   (pool\<lparr>active_tasks := active_tasks pool + 1\<rparr>))" for w' c
          using pinv ws i ne by (rule pool_inv_start) (simp add: executing_def)
        show ?thesis
          using g ws i w GOT_TASK a
          by (simp add: worker_thread_function_def sys_inv_def Let_def)
      next
        case (RUN_TASK task c)
        have ex: "executing (ws ! i)" using w RUN_TASK by (simp add: executing_def)
        have a: "pool_inv (update_worker i (w'\<lparr>pc := WAIT_TASK\<rparr>)
                   (pool\<lparr>active_tasks := active_tasks pool - 1\<rparr>))" for w'
          using pinv ws i ex by (rule pool_inv_finish) (simp add: executing_def)
        show ?thesis
          using g ws i w RUN_TASK a
          by (simp add: worker_thread_function_def sys_inv_def Let_def)
      next
        case EXITED
        then show ?thesis using inv g ws i w by (simp add: worker_thread_function_def)
      qed
    qed
  qed
qed

lemma pool_inv_frame [simp]:
  "pool_inv (pool\<lparr>task_queue := q\<rparr>) = pool_inv pool"
  "pool_inv (pool\<lparr>state := st\<rparr>) = pool_inv pool"
  by (simp_all add: pool_inv_def worker_count_def executing_workers_def)

lemma sys_inv_frame [simp]:
  "sys_inv (s\<lparr>os := r\<rparr>) = sys_inv s"
  "sys_inv (s\<lparr>pool_log := l\<rparr>) = sys_inv s"
  "sys_inv (s\<lparr>destroying := d\<rparr>) = sys_inv s"
  "sys_inv (s\<lparr>has_active_tasks := h\<rparr>) = sys_inv s"
  by (simp_all add: sys_inv_def)

lemma init_inv:
  assumes "sys_inv s"
  shows "sys_inv (snd (core_thread_init_with_config c self s))"
proof -
  obtain res s1 where cr: "create_threadpool_internal c self s = (res, s1)"
    by (cases "create_threadpool_internal c self s")
  from create_threadpool_internal_props [OF cr]
  have "\<forall>addr pool. res = Some (addr, pool) \<longrightarrow> pool_inv pool" by simp
  then show ?thesis
    using assms cr
    by (auto simp add: core_thread_init_with_config_def sys_inv_def split: option.splits)
qed

lemma add_task_inv:
  assumes "sys_inv s" "core_thread_add_task f a qp ep t s = Some (err, s1)"
  shows "sys_inv s1"
  using assms
  by (auto simp add: core_thread_add_task_def sys_inv_def Let_def
      split: option.splits if_splits osStatus_t.splits)

lemma deinit_inv:
  assumes "sys_inv s"
  shows "sys_inv (core_thread_deinit w s)"
  using assms
  by (auto simp add: core_thread_deinit_def destroy_begin_def sys_inv_def Let_def
      split: option.splits)

lemma destroy_step_inv:
  assumes "sys_inv s"
  shows "sys_inv (destroy_step s)"
  using assms
  by (auto simp add: destroy_step_def sys_inv_def Let_def
      split: option.splits destroy_pc.splits)

lemma wait_and_suspend_inv:
  assumes "sys_inv s"
  shows "sys_inv (wait_and_suspend_read self s)" "sys_inv (wait_and_suspend_suspend self s)"
  using assms
  by (auto simp add: wait_and_suspend_read_def wait_and_suspend_suspend_def Let_def
      split: option.splits)

lemma step_inv:
  assumes "sys_inv s"
  shows "sys_inv (step s e)"
proof (cases e)
  case (Init c self)
  then show ?thesis using init_inv [OF assms] by (simp add: step_def)
next
  case (AddTask f a qp ep t)
  then show ?thesis
    using add_task_inv [OF assms] assms by (auto simp add: step_def split: option.splits)
next
  case (Worker i)
  then show ?thesis using worker_thread_function_inv [OF assms] by (simp add: step_def)
next
  case (WaitAndSuspend self)
  then show ?thesis using wait_and_suspend_inv(1) [OF assms] assms by (simp add: step_def)
next
  case (SuspendStep self)
  then show ?thesis using wait_and_suspend_inv(2) [OF assms] by (simp add: step_def)
next
  case (Deinit w)
  then show ?thesis using deinit_inv [OF assms] assms by (simp add: step_def)
next
  case DestroyStep
  then show ?thesis using destroy_step_inv [OF assms] by (simp add: step_def)
qed

lemma run_inv:
  "sys_inv s \<Longrightarrow> sys_inv (run s evs)"
  unfolding run_def
  by (induction evs arbitrary: s) (simp_all add: step_inv)

lemma executing_le_count: "executing_workers pool \<le> worker_count pool"
  by (simp add: executing_workers_def worker_count_def split: option.splits)

text \<open>
  Claim C3. In every state reached from the boot state by calls of the public
  functions, worker steps and teardown steps, in any order, a pool that exists has
  its counter equal to the number of workers that are executing a task body (each
  worker increments it before the body and decrements it after), so the counter is at
  most \<open>thread_count\<close> and never wraps below zero.
\<close>

theorem active_tasks_within_thread_count:
  assumes "g_threadpool (run (boot results) evs) = Some (addr, pool)"
  shows "unat (active_tasks pool) = executing_workers pool \<and>
         unat (active_tasks pool) \<le> unat (thread_count pool) \<and>
         unat (core_thread_get_active_tasks_count (run (boot results) evs)) \<le> unat (thread_count pool)"
proof -
  have "sys_inv (boot results)"
    by (simp add: sys_inv_def boot_def)
  then have "sys_inv (run (boot results) evs)"
    by (rule run_inv)
  then have inv: "pool_inv pool"
    using assms by (simp add: sys_inv_def)
  then have "unat (active_tasks pool) = executing_workers pool"
    and "unat (active_tasks pool) \<le> unat (thread_count pool)"
    using executing_le_count [of pool] by (simp_all add: pool_inv_def)
  then show ?thesis
    using assms by (simp add: core_thread_get_active_tasks_count_def)
qed

theorem active_tasks_within_thread_count_witness:
  "unat (active_tasks (snd (the (g_threadpool occupied_pool)))) = 2 \<and>
   unat (core_thread_get_active_tasks_count occupied_pool) \<le> 2"
proof -
  have g: "g_threadpool (run (boot [])
       [Init (Some small_config) (Some 100),
        AddTask (Some 7) None THREADPOOL_PRIORITY_LOW osPriorityNormal 0, Worker 0, Worker 0,
        AddTask (Some 8) None THREADPOOL_PRIORITY_LOW osPriorityNormal 0, Worker 1, Worker 1])
     = Some (fst (the (g_threadpool occupied_pool)), snd (the (g_threadpool occupied_pool)))"
    by code_simp
  have ex: "executing_workers (snd (the (g_threadpool occupied_pool))) = 2"
    by code_simp
  have tc: "unat (thread_count (snd (the (g_threadpool occupied_pool)))) = 2"
    by code_simp
  show ?thesis
    using active_tasks_within_thread_count [OF g] ex tc
    by (simp add: occupied_pool_def)
qed

subsection \<open>Low-power coordination\<close>

lemma word_dec_zero: "(a :: uint32_t) - 1 = 0 \<longleftrightarrow> a = 1"
  by auto

lemma worker_resume_calls:
  "resume_calls (os (worker_thread_function i s)) =
     resume_calls (os s) + (if last_task_completes s (worker_thread_function i s) then 1 else 0)"
  by (auto simp add: worker_thread_function_def last_task_completes_def Let_def
      update_worker_def set_worker_def osThreadResume_def osThreadExit_def word_dec_zero
      split: option.splits worker_pc.splits)

lemma init_resume_calls:
  "resume_calls (os (snd (core_thread_init_with_config c self s))) = resume_calls (os s) \<and>
   \<not> last_task_completes s (snd (core_thread_init_with_config c self s))"
proof -
  obtain res s1 where cr: "create_threadpool_internal c self s = (res, s1)"
    by (cases "create_threadpool_internal c self s")
  from create_threadpool_internal_props [OF cr]
  have "resume_calls (os s1) = resume_calls (os s)" by simp
  then show ?thesis
    using cr
    by (auto simp add: core_thread_init_with_config_def last_task_completes_def
        split: option.splits)
qed

lemma add_task_resume_calls:
  "core_thread_add_task f a qp ep t s = Some (err, s1) \<Longrightarrow>
   resume_calls (os s1) = resume_calls (os s) \<and> \<not> last_task_completes s s1"
  by (auto simp add: core_thread_add_task_def last_task_completes_def Let_def
      split: option.splits if_splits osStatus_t.splits)

lemma wait_and_suspend_resume_calls:
  "resume_calls (os (wait_and_suspend_read self s)) = resume_calls (os s) \<and>
   \<not> last_task_completes s (wait_and_suspend_read self s)"
  "resume_calls (os (wait_and_suspend_suspend self s)) = resume_calls (os s) \<and>
   \<not> last_task_completes s (wait_and_suspend_suspend self s)"
  by (auto simp add: wait_and_suspend_read_def wait_and_suspend_suspend_def
      last_task_completes_def Let_def osThreadSuspend_def split: option.splits)

lemma deinit_resume_calls:
  "resume_calls (os (core_thread_deinit w s)) = resume_calls (os s) \<and>
   \<not> last_task_completes s (core_thread_deinit w s)"
  by (auto simp add: core_thread_deinit_def destroy_begin_def last_task_completes_def Let_def
      split: option.splits)

lemma destroy_step_resume_calls:
  "resume_calls (os (destroy_step s)) = resume_calls (os s) \<and>
   \<not> last_task_completes s (destroy_step s)"
  by (auto simp add: destroy_step_def last_task_completes_def Let_def creation_frame
      split: option.splits destroy_pc.splits)

lemma not_completes_refl: "\<not> last_task_completes s s"
  by (auto simp add: last_task_completes_def split: option.splits)

lemma step_AddTask:
  "step s (AddTask f a qp ep t) = s \<or>
   (\<exists>err. core_thread_add_task f a qp ep t s = Some (err, step s (AddTask f a qp ep t)))"
proof (cases "core_thread_add_task f a qp ep t s")
  case None
  then show ?thesis by (simp add: step_def)
next
  case (Some p)
  then show ?thesis by (cases p) (simp add: step_def)
qed

lemma step_resume_calls:
  "resume_calls (os (step s e)) =
     resume_calls (os s) + (if last_task_completes s (step s e) then 1 else 0)"
proof (cases e)
  case (Init c self)
  have "step s e = snd (core_thread_init_with_config c self s)"
    using Init by (simp add: step_def)
  then show ?thesis using init_resume_calls [of c self s] by simp
next
  case (AddTask f a qp ep t)
  from step_AddTask [of s f a qp ep t] show ?thesis
  proof
    assume "step s (AddTask f a qp ep t) = s"
    then show ?thesis using AddTask not_completes_refl [of s] by simp
  next
    assume "\<exists>err. core_thread_add_task f a qp ep t s = Some (err, step s (AddTask f a qp ep t))"
    then obtain err where "core_thread_add_task f a qp ep t s = Some (err, step s (AddTask f a qp ep t))"
      by blast
    from add_task_resume_calls [OF this] show ?thesis using AddTask by simp
  qed
next
  case (Worker i)
  have "step s e = worker_thread_function i s"
    using Worker by (simp add: step_def)
  then show ?thesis using worker_resume_calls [of i s] by simp
next
  case (WaitAndSuspend self)
  have "step s e = s \<or> step s e = wait_and_suspend_read self s"
    using WaitAndSuspend by (simp add: step_def)
  then show ?thesis
    using wait_and_suspend_resume_calls(1) [of self s] not_completes_refl [of s] by auto
next
  case (SuspendStep self)
  have "step s e = wait_and_suspend_suspend self s"
    using SuspendStep by (simp add: step_def)
  then show ?thesis using wait_and_suspend_resume_calls(2) [of self s] by simp
next
  case (Deinit w)
  have "step s e = s \<or> step s e = core_thread_deinit w s"
    using Deinit by (simp add: step_def)
  then show ?thesis
    using deinit_resume_calls [of w s] not_completes_refl [of s] by auto
next
  case DestroyStep
  have "step s e = destroy_step s"
    using DestroyStep by (simp add: step_def)
  then show ?thesis using destroy_step_resume_calls [of s] by simp
qed

lemma worker_completes_resumes:
  assumes "last_task_completes s (worker_thread_function i s)" "g_threadpool s = Some (addr, pool)"
    "main_thread pool = Some m"
  shows "m \<notin> suspended (os (worker_thread_function i s))"
  using assms
  by (auto simp add: worker_thread_function_def last_task_completes_def Let_def
      update_worker_def set_worker_def osThreadResume_def osThreadExit_def
      split: option.splits worker_pc.splits if_splits)

lemma completes_only_worker:
  assumes "last_task_completes s (step s e)"
  shows "\<exists>i. e = Worker i"
proof (cases e)
  case (Init c self)
  have "step s e = snd (core_thread_init_with_config c self s)"
    using Init by (simp add: step_def)
  then show ?thesis using assms init_resume_calls [of c self s] by simp
next
  case (AddTask f a qp ep t)
  from step_AddTask [of s f a qp ep t] show ?thesis
  proof
    assume "step s (AddTask f a qp ep t) = s"
    then show ?thesis using assms AddTask not_completes_refl [of s] by simp
  next
    assume "\<exists>err. core_thread_add_task f a qp ep t s = Some (err, step s (AddTask f a qp ep t))"
    then obtain err where "core_thread_add_task f a qp ep t s = Some (err, step s (AddTask f a qp ep t))"
      by blast
    from add_task_resume_calls [OF this] show ?thesis using assms AddTask by simp
  qed
next
  case (Worker i)
  then show ?thesis by simp
next
  case (WaitAndSuspend self)
  have "step s e = s \<or> step s e = wait_and_suspend_read self s"
    using WaitAndSuspend by (simp add: step_def)
  then show ?thesis
    using assms wait_and_suspend_resume_calls(1) [of self s] not_completes_refl [of s] by auto
next
  case (SuspendStep self)
  have "step s e = wait_and_suspend_suspend self s"
    using SuspendStep by (simp add: step_def)
  then show ?thesis using assms wait_and_suspend_resume_calls(2) [of self s] by simp
next
  case (Deinit w)
  have "step s e = s \<or> step s e = core_thread_deinit w s"
    using Deinit by (simp add: step_def)
  then show ?thesis
    using assms deinit_resume_calls [of w s] not_completes_refl [of s] by auto
next
  case DestroyStep
  have "step s e = destroy_step s"
    using DestroyStep by (simp add: step_def)
  then show ?thesis using assms destroy_step_resume_calls [of s] by simp
qed

lemma completes_resumes:
  assumes "last_task_completes s (step s e)" "g_threadpool s = Some (addr, pool)"
    "main_thread pool = Some m"
  shows "m \<notin> suspended (os (step s e))"
proof -
  obtain i where e: "e = Worker i"
    using completes_only_worker [OF assms(1)] by blast
  then have "step s e = worker_thread_function i s"
    by (simp add: step_def)
  then show ?thesis
    using worker_completes_resumes [of s i addr pool m] assms by simp
qed

lemma creation_locals:
  "has_active_tasks (create_error addr pool s) = has_active_tasks s"
  by (simp add: create_error_def Let_def split: option.splits prod.splits)

lemma create_worker_threads_locals:
  "create_worker_threads i cfg pool s = (ok, pool', s') \<Longrightarrow>
   has_active_tasks s' = has_active_tasks s"
proof (induction i cfg pool s rule: create_worker_threads.induct)
  case (1 i cfg pool s)
  show ?case
  proof (cases "i < unat (ThreadPoolConfig.thread_count cfg)")
    case False
    then show ?thesis
      using "1.prems" by (subst (asm) create_worker_threads.simps) simp
  next
    case True
    obtain w os1 where new: "osThreadNew (default_thread_priority cfg) (os s) = (w, os1)"
      by (cases "osThreadNew (default_thread_priority cfg) (os s)")
    show ?thesis
    proof (cases w)
      case None
      then show ?thesis
        using True new "1.prems"
        by (subst (asm) create_worker_threads.simps) auto
    next
      case (Some x)
      have rec: "create_worker_threads (i + 1) cfg (set_worker i (Some x) pool) (s\<lparr>os := os1\<rparr>)
                   = (ok, pool', s')"
        using True new Some "1.prems" by (subst (asm) create_worker_threads.simps) simp
      from "1.IH" [OF True new [symmetric] Some rec]
      show ?thesis by simp
    qed
  qed
qed

lemma create_threadpool_internal_locals:
  "has_active_tasks (snd (create_threadpool_internal c self s)) = has_active_tasks s"
proof (cases c)
  case None
  then show ?thesis by (simp add: create_threadpool_internal_def)
next
  case (Some cfg)
  note c = this
  obtain b r1 where e1: "pvPortMalloc (os s) = (b, r1)"
    by (cases "pvPortMalloc (os s)")
  obtain m1 r2 where e2: "osMutexNew r1 = (m1, r2)"
    by (cases "osMutexNew r1")
  obtain m2 r3 where e3: "osMutexNew r2 = (m2, r3)"
    by (cases "osMutexNew r2")
  obtain q r4 where e4: "osMessageQueueNew (unat (queue_size cfg)) r3 = (q :: Task msg_queue option, r4)"
    by (cases "osMessageQueueNew (unat (queue_size cfg)) r3 :: Task msg_queue option \<times> rtos")
  obtain arr r5 where e5: "pvPortMalloc r4 = (arr, r5)"
    by (cases "pvPortMalloc r4")
  note eqs = e1 e2 e3 e4 e5
  show ?thesis
  proof (cases "ThreadPoolConfig.thread_count cfg = 0 \<or> queue_size cfg = 0 \<or> stack_size cfg = 0")
    case True
    then show ?thesis
      unfolding create_threadpool_internal_def c by auto
  next
    case valid: False
    show ?thesis
    proof (cases b)
      case None
      then show ?thesis
        using valid unfolding create_threadpool_internal_def c
        by (auto simp add: eqs)
    next
      case (Some addr)
      note b = this
      show ?thesis
      proof (cases "m1 = None \<or> m2 = None")
        case True
        then show ?thesis
          using valid b unfolding create_threadpool_internal_def c
          by (auto simp add: eqs creation_locals Let_def split del: if_split)
      next
        case False
        then obtain y1 y2 where mut: "m1 = Some y1" "m2 = Some y2" by auto
        show ?thesis
        proof (cases q)
          case None
          then show ?thesis
            using valid b mut unfolding create_threadpool_internal_def c
            by (auto simp add: eqs creation_locals Let_def split del: if_split)
        next
          case (Some qq)
          note q = this
          show ?thesis
          proof (cases arr)
            case None
            then show ?thesis
              using valid b mut q unfolding create_threadpool_internal_def c
              by (auto simp add: eqs creation_locals Let_def split del: if_split)
          next
            case (Some wa)
            let ?pool3 = "\<lparr>task_queue = Some qq,
                worker_threads = Some (wa, replicate (unat (ThreadPoolConfig.thread_count cfg)) None),
                thread_count = ThreadPoolConfig.thread_count cfg,
                state = THREADPOOL_RUNNING, state_mutex = Some y1,
                active_tasks = 0, active_tasks_mutex = Some y2,
                main_thread = (if ThreadPoolConfig.low_power_mode cfg then self else None),
                low_power_mode = ThreadPoolConfig.low_power_mode cfg,
                config = cfg\<rparr>"
            obtain ok pool4 s4 where loop:
              "create_worker_threads 0 cfg ?pool3 (s\<lparr>os := r5\<rparr>) = (ok, pool4, s4)"
              by (cases "create_worker_threads 0 cfg ?pool3 (s\<lparr>os := r5\<rparr>)")
            have p4: "has_active_tasks s4 = has_active_tasks s"
              using create_worker_threads_locals [OF loop] by simp
            have "create_threadpool_internal c self s =
                   (if ok then (Some (addr, pool4),
                                s4\<lparr>pool_log := LOGI ''ThreadPool created: %lu threads, queue size: %lu'' (pool_log s4)\<rparr>)
                    else (None, create_error addr pool4 s4))"
              using valid b mut q Some loop unfolding create_threadpool_internal_def c
              by (cases ok) (simp_all add: eqs Let_def split del: if_split)
            then show ?thesis
              using p4 by (simp add: creation_locals)
          qed
        qed
      qed
    qed
  qed
qed

lemma step_locals:
  assumes "\<not> in_call_of self e"
  shows "has_active_tasks (step s e) self = has_active_tasks s self"
proof (cases e)
  case (Init c me)
  then show ?thesis
    using create_threadpool_internal_locals [of c me s]
    by (cases "create_threadpool_internal c me s")
      (auto simp add: step_def core_thread_init_with_config_def split: option.splits)
next
  case (AddTask f a qp ep t)
  then show ?thesis
    by (auto simp add: step_def core_thread_add_task_def Let_def
        split: option.splits if_splits osStatus_t.splits)
next
  case (Worker i)
  then show ?thesis
    by (auto simp add: step_def worker_thread_function_def Let_def
        split: option.splits worker_pc.splits)
next
  case (WaitAndSuspend c)
  then show ?thesis
    using assms
    by (auto simp add: step_def in_call_of_def wait_and_suspend_read_def split: option.splits)
next
  case (SuspendStep c)
  then show ?thesis
    using assms
    by (auto simp add: step_def in_call_of_def wait_and_suspend_suspend_def Let_def
        split: option.splits)
next
  case (Deinit w)
  then show ?thesis
    by (auto simp add: step_def core_thread_deinit_def destroy_begin_def Let_def
        split: option.splits)
next
  case DestroyStep
  then show ?thesis
    by (auto simp add: step_def destroy_step_def Let_def
        split: option.splits destroy_pc.splits)
qed

lemma run_locals:
  "\<forall>e\<in>set evs. \<not> in_call_of self e \<Longrightarrow>
   has_active_tasks (run s evs) self = has_active_tasks s self"
  unfolding run_def
  by (induction evs arbitrary: s) (simp_all add: step_locals)

lemma suspend_step_suspended:
  assumes "has_active_tasks t self = Some active" "g_threadpool t = Some (addr, pool)"
  shows "suspended (os (wait_and_suspend_suspend self t)) =
           (case main_thread pool of
              Some m \<Rightarrow> if active then insert m (suspended (os t)) else suspended (os t)
            | None \<Rightarrow> suspended (os t))"
  using assms
  by (auto simp add: wait_and_suspend_suspend_def osThreadSuspend_def Let_def
      split: option.splits)

lemma read_step_local:
  assumes "g_threadpool s = Some (addr, pool)" "low_power_mode pool"
  shows "has_active_tasks (wait_and_suspend_read self s) self = Some (active_tasks pool \<noteq> 0)"
    "g_threadpool (wait_and_suspend_read self s) = g_threadpool s"
    "os (wait_and_suspend_read self s) = os s"
  using assms
  by (auto simp add: wait_and_suspend_read_def word_greater_zero_iff)

text \<open>
  Claim C8, as amended. In low-power mode a call of \<^verbatim>\<open>core_thread_wait_and_suspend\<close>
  reads the counter under the mutex and suspends in a later step. When the read saw a
  counter other than zero, that step suspends the thread recorded in \<open>main_thread\<close> at
  construction, whoever the caller is and whatever the other threads have done since
  the read; when the read saw zero or no main thread is recorded, it suspends nobody.
  A call that no other thread interrupts, made while the counter is not zero, leaves
  the main thread suspended. A step that brings the counter from one to zero while the
  state is \<open>RUNNING\<close> leaves the main thread resumed, and \<^verbatim>\<open>osThreadResume\<close> is called
  once in that step and in no other step: once per transition to zero, by the worker
  that made the decrement.
\<close>

theorem low_power_suspend_and_single_resume:
  "(g_threadpool s = Some (addr, pool) \<and> low_power_mode pool \<and> active_tasks pool \<noteq> 0 \<and>
    (\<forall>e\<in>set evs. \<not> in_call_of self e) \<and>
    g_threadpool (run (wait_and_suspend_read self s) evs) = Some (addr', pool') \<and>
    main_thread pool' = Some m' \<longrightarrow>
      suspended (os (wait_and_suspend_suspend self (run (wait_and_suspend_read self s) evs))) =
        insert m' (suspended (os (run (wait_and_suspend_read self s) evs)))) \<and>
   (g_threadpool s = Some (addr, pool) \<and> low_power_mode pool \<and>
    (\<forall>e\<in>set evs. \<not> in_call_of self e) \<and>
    g_threadpool (run (wait_and_suspend_read self s) evs) = Some (addr', pool') \<and>
    (active_tasks pool = 0 \<or> main_thread pool' = None) \<longrightarrow>
      suspended (os (wait_and_suspend_suspend self (run (wait_and_suspend_read self s) evs))) =
        suspended (os (run (wait_and_suspend_read self s) evs))) \<and>
   (g_threadpool s = Some (addr, pool) \<and> low_power_mode pool \<and> main_thread pool = Some m \<and>
    active_tasks pool \<noteq> 0 \<longrightarrow>
      m \<in> suspended (os (core_thread_wait_and_suspend self s))) \<and>
   (g_threadpool s = Some (addr, pool) \<and> main_thread pool = Some m \<and>
    last_task_completes s (step s e) \<longrightarrow>
      m \<notin> suspended (os (step s e))) \<and>
   resume_calls (os (step s e)) =
     resume_calls (os s) + (if last_task_completes s (step s e) then 1 else 0)"
proof -
  let ?r = "wait_and_suspend_read self s"
  let ?t = "run ?r evs"
  have loc: "has_active_tasks ?t self = Some (active_tasks pool \<noteq> 0)"
    if "g_threadpool s = Some (addr, pool)" "low_power_mode pool"
      "\<forall>e\<in>set evs. \<not> in_call_of self e"
    using run_locals [OF that(3), of ?r] read_step_local(1) [OF that(1,2), of self] by simp
  have a: "suspended (os (wait_and_suspend_suspend self ?t)) = insert m' (suspended (os ?t))"
    if "g_threadpool s = Some (addr, pool)" "low_power_mode pool" "active_tasks pool \<noteq> 0"
      "\<forall>e\<in>set evs. \<not> in_call_of self e" "g_threadpool ?t = Some (addr', pool')"
      "main_thread pool' = Some m'"
    using suspend_step_suspended [OF loc [OF that(1,2,4)] that(5)] that(3,6) by simp
  have b: "suspended (os (wait_and_suspend_suspend self ?t)) = suspended (os ?t)"
    if "g_threadpool s = Some (addr, pool)" "low_power_mode pool"
      "\<forall>e\<in>set evs. \<not> in_call_of self e" "g_threadpool ?t = Some (addr', pool')"
      "active_tasks pool = 0 \<or> main_thread pool' = None"
    using suspend_step_suspended [OF loc [OF that(1,2,3)] that(4)] that(5)
    by (auto split: option.splits)
  have c: "m \<in> suspended (os (core_thread_wait_and_suspend self s))"
    if "g_threadpool s = Some (addr, pool)" "low_power_mode pool" "main_thread pool = Some m"
      "active_tasks pool \<noteq> 0"
    using that
    by (simp add: core_thread_wait_and_suspend_def wait_and_suspend_read_def
        wait_and_suspend_suspend_def osThreadSuspend_def Let_def word_greater_zero_iff)
  show ?thesis
    using a b c completes_resumes [of s e addr pool m] step_resume_calls [of s e] by blast
qed

theorem low_power_suspend_and_single_resume_witness:
  "suspended (os (wait_and_suspend_suspend 100
     (run (wait_and_suspend_read 100 busy_low_power_pool) [low_task]))) =
     insert 100 (suspended (os (run (wait_and_suspend_read 100 busy_low_power_pool) [low_task]))) \<and>
   suspended (os (wait_and_suspend_suspend 100
     (run (wait_and_suspend_read 100 (run busy_low_power_pool [Worker 0])) [low_task]))) =
     suspended (os (run (wait_and_suspend_read 100 (run busy_low_power_pool [Worker 0])) [low_task])) \<and>
   100 \<in> suspended (os (core_thread_wait_and_suspend 100 busy_low_power_pool)) \<and>
   100 \<notin> suspended (os (step (core_thread_wait_and_suspend 100 busy_low_power_pool) (Worker 0))) \<and>
   resume_calls (os (step (core_thread_wait_and_suspend 100 busy_low_power_pool) (Worker 0))) =
     resume_calls (os (core_thread_wait_and_suspend 100 busy_low_power_pool)) + 1"
proof -
  let ?s = "busy_low_power_pool"
  let ?u = "run (wait_and_suspend_read 100 ?s) [low_task]"
  let ?i = "run busy_low_power_pool [Worker 0]"
  let ?v = "run (wait_and_suspend_read 100 ?i) [low_task]"
  let ?t = "core_thread_wait_and_suspend 100 busy_low_power_pool"
  have others: "\<forall>e\<in>set [low_task]. \<not> in_call_of 100 e"
    by (simp add: low_task_def in_call_of_def)
  have g: "g_threadpool ?s = Some (fst (the (g_threadpool ?s)), snd (the (g_threadpool ?s)))"
    by code_simp
  have lp: "low_power_mode (snd (the (g_threadpool ?s)))"
    by code_simp
  have mt: "main_thread (snd (the (g_threadpool ?s))) = Some 100"
    by code_simp
  have act: "active_tasks (snd (the (g_threadpool ?s))) \<noteq> 0"
    by code_simp
  have gu: "g_threadpool ?u = Some (fst (the (g_threadpool ?u)), snd (the (g_threadpool ?u)))"
    by code_simp
  have mtu: "main_thread (snd (the (g_threadpool ?u))) = Some 100"
    by code_simp
  have gi: "g_threadpool ?i = Some (fst (the (g_threadpool ?i)), snd (the (g_threadpool ?i)))"
    by code_simp
  have lpi: "low_power_mode (snd (the (g_threadpool ?i)))"
    by code_simp
  have acti: "active_tasks (snd (the (g_threadpool ?i))) = 0"
    by code_simp
  have gv: "g_threadpool ?v = Some (fst (the (g_threadpool ?v)), snd (the (g_threadpool ?v)))"
    by code_simp
  have g': "g_threadpool ?t = Some (fst (the (g_threadpool ?t)), snd (the (g_threadpool ?t)))"
    by code_simp
  have mt': "main_thread (snd (the (g_threadpool ?t))) = Some 100"
    by code_simp
  have fin: "last_task_completes ?t (step ?t (Worker 0))"
    by code_simp
  have a: "suspended (os (wait_and_suspend_suspend 100 ?u)) = insert 100 (suspended (os ?u))"
    using low_power_suspend_and_single_resume
      [where s = ?s and addr = "fst (the (g_threadpool ?s))"
        and pool = "snd (the (g_threadpool ?s))" and self = 100 and evs = "[low_task]"
        and addr' = "fst (the (g_threadpool ?u))" and pool' = "snd (the (g_threadpool ?u))"
        and m' = 100]
      g lp act others gu mtu by blast
  have b: "suspended (os (wait_and_suspend_suspend 100 ?v)) = suspended (os ?v)"
    using low_power_suspend_and_single_resume
      [where s = ?i and addr = "fst (the (g_threadpool ?i))"
        and pool = "snd (the (g_threadpool ?i))" and self = 100 and evs = "[low_task]"
        and addr' = "fst (the (g_threadpool ?v))" and pool' = "snd (the (g_threadpool ?v))"]
      gi lpi acti others gv by blast
  have c: "100 \<in> suspended (os ?t)"
    using low_power_suspend_and_single_resume
      [where s = ?s and addr = "fst (the (g_threadpool ?s))"
        and pool = "snd (the (g_threadpool ?s))" and m = 100 and self = 100]
      g lp mt act by blast
  have d: "100 \<notin> suspended (os (step ?t (Worker 0)))"
    using low_power_suspend_and_single_resume
      [where s = ?t and addr = "fst (the (g_threadpool ?t))"
        and pool = "snd (the (g_threadpool ?t))" and m = 100 and e = "Worker 0"]
      g' mt' fin by blast
  have e: "resume_calls (os (step ?t (Worker 0))) = resume_calls (os ?t) + 1"
    using low_power_suspend_and_single_resume [where s = ?t and e = "Worker 0"] fin by simp
  show ?thesis
    using a b c d e by blast
qed

text \<open>
  Claim C8 as stated fails in two runs. Thread 100, the main thread of the pool, calls
  \<^verbatim>\<open>core_thread_wait_and_suspend\<close> while one task is running; the task completes
  after the read of the counter and before the suspension, so that its
  \<^verbatim>\<open>osThreadResume\<close> comes first: the thread is suspended afterwards, with the counter at
  zero and the state \<open>RUNNING\<close>, and the one call of \<^verbatim>\<open>osThreadResume\<close> has been spent.
  In a low-power pool for which no main thread was recorded, a call while one task is
  running suspends nobody.
\<close>

theorem low_power_counterexample:
  "core_thread_get_active_tasks_count busy_low_power_pool = 1 \<and>
   suspended (os busy_low_power_pool) = {} \<and>
   suspended (os completion_between) = {100} \<and>
   core_thread_get_active_tasks_count completion_between = 0 \<and>
   core_thread_get_state completion_between = THREADPOOL_RUNNING \<and>
   resume_calls (os completion_between) = 1 \<and>
   low_power_mode (snd (the (g_threadpool no_main_thread_pool))) \<and>
   core_thread_get_active_tasks_count no_main_thread_pool = 1 \<and>
   suspended (os (core_thread_wait_and_suspend 100 no_main_thread_pool)) = {}"
  by code_simp
subsection \<open>Teardown\<close>

lemma length_mq_insert [simp]: "length (mq_insert m xs) = Suc (length xs)"
  by (induction xs) auto

lemma filter_mq_insert_out: "\<not> P m \<Longrightarrow> filter P (mq_insert m xs) = filter P xs"
  by (induction xs) auto

lemma filter_mq_insert_in: "P m \<Longrightarrow> length (filter P (mq_insert m xs)) = Suc (length (filter P xs))"
  by (induction xs) auto

lemma list_all_mq_insert: "list_all P (mq_insert m xs) = (P m \<and> list_all P xs)"
  by (induction xs) auto

lemma hd_mq_insert_shutdown:
  "list_all (\<lambda>m. is_shutdown_signal (fst m) \<or> snd m < 255) xs \<Longrightarrow>
   (case mq_insert (shutdown_task, 255) xs of [] \<Rightarrow> False | m # ms \<Rightarrow> is_shutdown_signal (fst m))"
  by (cases xs) (auto simp add: shutdown_task_def)

lemma ordinary_below_255_frame [simp]:
  "ordinary_below_255 (q\<lparr>mq_msgs := mq_insert m (mq_msgs q)\<rparr>) \<longleftrightarrow>
     (is_shutdown_signal (fst m) \<or> snd m < 255) \<and> ordinary_below_255 q"
  by (simp add: ordinary_below_255_def list_all_mq_insert)

lemma convert_priority_below_255: "convert_priority p < 255"
  by (cases p) (simp_all add: convert_priority_def)

lemma queue_inv_frame [simp]:
  "queue_inv (s\<lparr>os := r\<rparr>) = queue_inv s"
  "queue_inv (s\<lparr>pool_log := l\<rparr>) = queue_inv s"
  "queue_inv (s\<lparr>destroying := d\<rparr>) = queue_inv s"
  "queue_inv (s\<lparr>has_active_tasks := h\<rparr>) = queue_inv s"
  by (simp_all add: queue_inv_def)

lemma init_queue_inv:
  assumes "queue_inv s"
  shows "queue_inv (snd (core_thread_init_with_config c self s))"
proof -
  obtain res s1 where cr: "create_threadpool_internal c self s = (res, s1)"
    by (cases "create_threadpool_internal c self s")
  from create_threadpool_internal_props [OF cr]
  have "\<forall>addr pool. res = Some (addr, pool) \<longrightarrow> (\<exists>q. task_queue pool = Some q \<and> mq_msgs q = [])"
    by simp
  then show ?thesis
    using assms cr
    by (auto simp add: core_thread_init_with_config_def queue_inv_def ordinary_below_255_def
        split: option.splits)
qed

lemma add_task_queue_inv:
  assumes "queue_inv s" "core_thread_add_task f a qp ep t s = Some (err, s1)"
  shows "queue_inv s1"
  using assms convert_priority_below_255 [of qp]
  by (auto simp add: core_thread_add_task_def queue_inv_def Let_def osMessageQueuePut_def
      split: option.splits if_splits osStatus_t.splits)

lemma worker_queue_inv:
  assumes "queue_inv s"
  shows "queue_inv (worker_thread_function i s)"
  using assms
  by (auto simp add: worker_thread_function_def queue_inv_def Let_def osMessageQueueGet_def
      update_worker_def set_worker_def ordinary_below_255_def
      split: option.splits worker_pc.splits list.splits if_splits)

lemma deinit_queue_inv:
  assumes "queue_inv s"
  shows "queue_inv (core_thread_deinit w s)"
  using assms
  by (auto simp add: core_thread_deinit_def destroy_begin_def queue_inv_def Let_def
      split: option.splits)

lemma destroy_step_queue_inv:
  assumes "queue_inv s"
  shows "queue_inv (destroy_step s)"
  using assms
  by (auto simp add: destroy_step_def queue_inv_def Let_def osMessageQueuePut_def
      shutdown_task_def split: option.splits destroy_pc.splits if_splits)

lemma wait_and_suspend_queue_inv:
  assumes "queue_inv s"
  shows "queue_inv (wait_and_suspend_read self s)" "queue_inv (wait_and_suspend_suspend self s)"
  using assms
  by (auto simp add: wait_and_suspend_read_def wait_and_suspend_suspend_def Let_def
      split: option.splits)

lemma step_queue_inv:
  assumes "queue_inv s"
  shows "queue_inv (step s e)"
proof (cases e)
  case (Init c self)
  then show ?thesis using init_queue_inv [OF assms] by (simp add: step_def)
next
  case (AddTask f a qp ep t)
  from step_AddTask [of s f a qp ep t] show ?thesis
    using add_task_queue_inv [OF assms] assms AddTask by auto
next
  case (Worker i)
  then show ?thesis using worker_queue_inv [OF assms] by (simp add: step_def)
next
  case (WaitAndSuspend self)
  then show ?thesis using wait_and_suspend_queue_inv(1) [OF assms] assms by (simp add: step_def)
next
  case (SuspendStep self)
  then show ?thesis using wait_and_suspend_queue_inv(2) [OF assms] by (simp add: step_def)
next
  case (Deinit w)
  then show ?thesis using deinit_queue_inv [OF assms] assms by (simp add: step_def)
next
  case DestroyStep
  then show ?thesis using destroy_step_queue_inv [OF assms] by (simp add: step_def)
qed

lemma run_queue_inv:
  "queue_inv s \<Longrightarrow> queue_inv (run s evs)"
  unfolding run_def
  by (induction evs arbitrary: s) (simp_all add: step_queue_inv)

lemma reachable_ordinary_below_255:
  "queue_of (run (boot results) evs) = Some q \<Longrightarrow> ordinary_below_255 q"
proof -
  assume q: "queue_of (run (boot results) evs) = Some q"
  have "queue_inv (boot results)"
    by (simp add: queue_inv_def boot_def)
  then have "queue_inv (run (boot results) evs)"
    by (rule run_queue_inv)
  then show ?thesis
    using q by (auto simp add: queue_inv_def queue_of_def split: option.splits)
qed

lemma destroy_step_post:
  assumes g: "g_threadpool s = Some (addr, pool)"
    and pc: "destroying s = SEND_SIGNAL i"
    and i: "i < unat (thread_count pool)"
    and ws: "worker_threads pool = Some (wa, ws)" "i < length ws" "ws ! i \<noteq> None"
    and q: "task_queue pool = Some q" "length (mq_msgs q) < mq_capacity q"
  shows "destroy_step s =
           s\<lparr>g_threadpool :=
               Some (addr, pool\<lparr>task_queue :=
                        Some (q\<lparr>mq_msgs := mq_insert (shutdown_task, 255) (mq_msgs q)\<rparr>)\<rparr>),
             destroying := SEND_SIGNAL (i + 1)\<rparr>"
  using assms by (simp add: destroy_step_def osMessageQueuePut_def Let_def)

lemma run_DestroyStep: "run s (DestroyStep # evs) = run (destroy_step s) evs"
  by (simp add: run_def step_def)

lemma posting_loop:
  assumes "g_threadpool s = Some (addr, pool)"
    and "destroying s = SEND_SIGNAL i"
    and "i + k \<le> unat (thread_count pool)"
    and "worker_threads pool = Some (wa, ws)" "unat (thread_count pool) \<le> length ws"
        "list_all (\<lambda>w. w \<noteq> None) ws"
    and "task_queue pool = Some q" "length (mq_msgs q) + k \<le> mq_capacity q"
  shows "\<exists>q'. run s (replicate k DestroyStep) =
                 s\<lparr>g_threadpool := Some (addr, pool\<lparr>task_queue := Some q'\<rparr>),
                   destroying := SEND_SIGNAL (i + k)\<rparr> \<and>
              shutdown_count q' = shutdown_count q + k \<and>
              ordinary_msgs q' = ordinary_msgs q \<and>
              (ordinary_below_255 q \<and> (0 < k \<or> head_is_shutdown q) \<longrightarrow> head_is_shutdown q')"
  using assms
proof (induction k arbitrary: s pool i q)
  case 0
  have "s\<lparr>g_threadpool := Some (addr, pool\<lparr>task_queue := Some q\<rparr>), destroying := SEND_SIGNAL i\<rparr> = s"
    using "0.prems" by (cases s, cases pool) simp
  then show ?case by (intro exI [of _ q]) (simp add: run_def)
next
  case (Suc k)
  let ?q1 = "q\<lparr>mq_msgs := mq_insert (shutdown_task, 255) (mq_msgs q)\<rparr>"
  let ?pool1 = "pool\<lparr>task_queue := Some ?q1\<rparr>"
  let ?s1 = "s\<lparr>g_threadpool := Some (addr, ?pool1), destroying := SEND_SIGNAL (i + 1)\<rparr>"
  have i: "i < unat (thread_count pool)" "i < length ws"
    using Suc.prems by simp_all
  have wi: "ws ! i \<noteq> None"
    using Suc.prems i by (simp add: list_all_length)
  have room: "length (mq_msgs q) < mq_capacity q"
    using Suc.prems by simp
  have st: "destroy_step s = ?s1"
    using destroy_step_post [OF Suc.prems(1,2) i(1) Suc.prems(4) i(2) wi Suc.prems(7) room] .
  have "\<exists>q'. run ?s1 (replicate k DestroyStep) =
                 ?s1\<lparr>g_threadpool := Some (addr, ?pool1\<lparr>task_queue := Some q'\<rparr>),
                   destroying := SEND_SIGNAL (i + 1 + k)\<rparr> \<and>
              shutdown_count q' = shutdown_count ?q1 + k \<and>
              ordinary_msgs q' = ordinary_msgs ?q1 \<and>
              (ordinary_below_255 ?q1 \<and> (0 < k \<or> head_is_shutdown ?q1) \<longrightarrow> head_is_shutdown q')"
    using Suc.prems by (intro Suc.IH) simp_all
  then obtain q' where q':
    "run ?s1 (replicate k DestroyStep) =
       ?s1\<lparr>g_threadpool := Some (addr, ?pool1\<lparr>task_queue := Some q'\<rparr>),
           destroying := SEND_SIGNAL (i + 1 + k)\<rparr>"
    "shutdown_count q' = shutdown_count ?q1 + k"
    "ordinary_msgs q' = ordinary_msgs ?q1"
    "ordinary_below_255 ?q1 \<and> (0 < k \<or> head_is_shutdown ?q1) \<longrightarrow> head_is_shutdown q'"
    by blast
  have c1: "shutdown_count ?q1 = shutdown_count q + 1"
    by (simp add: shutdown_count_def filter_mq_insert_in shutdown_task_def)
  have c2: "ordinary_msgs ?q1 = ordinary_msgs q"
    by (simp add: ordinary_msgs_def filter_mq_insert_out shutdown_task_def)
  have c3: "ordinary_below_255 q \<longrightarrow> ordinary_below_255 ?q1 \<and> head_is_shutdown ?q1"
    using hd_mq_insert_shutdown [of "mq_msgs q"]
    by (simp add: ordinary_below_255_def head_is_shutdown_def list_all_mq_insert shutdown_task_def)
  have hd: "ordinary_below_255 q \<longrightarrow> head_is_shutdown q'"
    using q'(4) c3 by blast
  have "run s (replicate (Suc k) DestroyStep) = run ?s1 (replicate k DestroyStep)"
    using st by (simp add: run_DestroyStep)
  then show ?case
    using q' c1 c2 hd by (intro exI [of _ q']) simp
qed

lemma worker_exits_on_shutdown:
  assumes "g_threadpool s = Some (addr, pool)"
    and "worker_threads pool = Some (wa, ws)" "i < length ws" "ws ! i = Some w" "pc w = WAIT_TASK"
    and "task_queue pool = Some q" "mq_msgs q = (task, prio) # rest" "is_shutdown_signal task"
  shows "worker_thread_function i s =
           s\<lparr>g_threadpool :=
               Some (addr, update_worker i (w\<lparr>pc := EXITED\<rparr>)
                             (pool\<lparr>task_queue := Some (q\<lparr>mq_msgs := rest\<rparr>)\<rparr>)),
             os := osThreadExit (thread_id w) (os s)\<rparr>"
  using assms by (simp add: worker_thread_function_def osMessageQueueGet_def)

text \<open>
  Claim C5, as amended. In every reachable state the ordinary tasks in the queue have
  priorities below 255. During teardown one put of a shutdown-tagged task is made per
  worker, at priority 255. When the queue has room for them, the posting loop enqueues
  exactly one shutdown-tagged task per worker and leaves the ordinary tasks queued as
  they are; a shutdown-tagged task is then at the head of the queue, ahead of the
  ordinary tasks still queued. A worker
  that dequeues a shutdown-tagged task leaves its loop, without touching the counter.
  After the posting loop the teardown releases the resources, and then no pool exists
  and the state query returns \<open>STOPPED\<close>.
\<close>

theorem teardown_signals_and_worker_exit:
  "(queue_of (run (boot results) evs) = Some q0 \<longrightarrow> ordinary_below_255 q0) \<and>
   (g_threadpool s = Some (addr, pool) \<and> destroying s = SEND_SIGNAL 0 \<and>
    worker_threads pool = Some (wa, ws) \<and> length ws = unat (thread_count pool) \<and>
    list_all (\<lambda>w. w \<noteq> None) ws \<and> task_queue pool = Some q \<and>
    length (mq_msgs q) + unat (thread_count pool) \<le> mq_capacity q \<longrightarrow>
      (\<exists>q'. run s (replicate (unat (thread_count pool)) DestroyStep) =
               s\<lparr>g_threadpool := Some (addr, pool\<lparr>task_queue := Some q'\<rparr>),
                 destroying := SEND_SIGNAL (unat (thread_count pool))\<rparr> \<and>
            shutdown_count q' = shutdown_count q + unat (thread_count pool) \<and>
            ordinary_msgs q' = ordinary_msgs q \<and>
            (ordinary_below_255 q \<and> 0 < unat (thread_count pool) \<longrightarrow> head_is_shutdown q'))) \<and>
   (g_threadpool s = Some (addr, pool) \<and> worker_threads pool = Some (wa, ws) \<and>
    i < length ws \<and> ws ! i = Some w \<and> pc w = WAIT_TASK \<and> task_queue pool = Some q \<and>
    mq_msgs q = (task, prio) # rest \<and> is_shutdown_signal task \<longrightarrow>
      worker_pc_of i (worker_thread_function i s) = Some EXITED \<and>
      queue_of (worker_thread_function i s) = Some (q\<lparr>mq_msgs := rest\<rparr>) \<and>
      core_thread_get_active_tasks_count_wo_mutex (worker_thread_function i s) = active_tasks pool) \<and>
   (g_threadpool s = Some (addr, pool) \<and> destroying s = SEND_SIGNAL (unat (thread_count pool)) \<longrightarrow>
      destroying (destroy_step s) = CLEAN_UP) \<and>
   (g_threadpool s = Some (addr, pool) \<and> destroying s = CLEAN_UP \<longrightarrow>
      g_threadpool (destroy_step s) = None \<and>
      core_thread_get_state (destroy_step s) = THREADPOOL_STOPPED)"
proof -
  have a: "\<exists>q'. run s (replicate (unat (thread_count pool)) DestroyStep) =
               s\<lparr>g_threadpool := Some (addr, pool\<lparr>task_queue := Some q'\<rparr>),
                 destroying := SEND_SIGNAL (unat (thread_count pool))\<rparr> \<and>
            shutdown_count q' = shutdown_count q + unat (thread_count pool) \<and>
            ordinary_msgs q' = ordinary_msgs q \<and>
            (ordinary_below_255 q \<and> 0 < unat (thread_count pool) \<longrightarrow> head_is_shutdown q')"
    if "g_threadpool s = Some (addr, pool)" "destroying s = SEND_SIGNAL 0"
      "worker_threads pool = Some (wa, ws)" "length ws = unat (thread_count pool)"
      "list_all (\<lambda>w. w \<noteq> None) ws" "task_queue pool = Some q"
      "length (mq_msgs q) + unat (thread_count pool) \<le> mq_capacity q"
    using posting_loop [of s addr pool 0 "unat (thread_count pool)" wa ws q] that by auto
  have b: "worker_pc_of i (worker_thread_function i s) = Some EXITED \<and>
      queue_of (worker_thread_function i s) = Some (q\<lparr>mq_msgs := rest\<rparr>) \<and>
      core_thread_get_active_tasks_count_wo_mutex (worker_thread_function i s) = active_tasks pool"
    if "g_threadpool s = Some (addr, pool)" "worker_threads pool = Some (wa, ws)"
      "i < length ws" "ws ! i = Some w" "pc w = WAIT_TASK" "task_queue pool = Some q"
      "mq_msgs q = (task, prio) # rest" "is_shutdown_signal task"
    using worker_exits_on_shutdown [OF that] that
    by (simp add: worker_pc_of_def queue_of_def update_worker_def set_worker_def
        core_thread_get_active_tasks_count_wo_mutex_def)
  have c: "destroying (destroy_step s) = CLEAN_UP"
    if "g_threadpool s = Some (addr, pool)" "destroying s = SEND_SIGNAL (unat (thread_count pool))"
    using that by (simp add: destroy_step_def)
  have d: "g_threadpool (destroy_step s) = None \<and>
      core_thread_get_state (destroy_step s) = THREADPOOL_STOPPED"
    if "g_threadpool s = Some (addr, pool)" "destroying s = CLEAN_UP"
    using that by (simp add: destroy_step_def core_thread_get_state_def Let_def)
  have z: "queue_of (run (boot results) evs) = Some q0 \<longrightarrow> ordinary_below_255 q0"
    using reachable_ordinary_below_255 by blast
  show ?thesis
    using z a b c d by blast
qed

theorem teardown_signals_and_worker_exit_witness:
  "map_option ordinary_below_255 (queue_of work_queued_pool) = Some True \<and>
   map_option shutdown_count
     (queue_of (run (run work_queued_pool [Deinit False]) (replicate 2 DestroyStep))) = Some 2 \<and>
   map_option head_is_shutdown
     (queue_of (run (run work_queued_pool [Deinit False]) (replicate 2 DestroyStep))) = Some True \<and>
   map_option ordinary_msgs
     (queue_of (run (run work_queued_pool [Deinit False]) (replicate 2 DestroyStep)))
     = map_option ordinary_msgs (queue_of work_queued_pool) \<and>
   worker_pc_of 0 (worker_thread_function 0
      (run work_queued_pool [Deinit False, DestroyStep, DestroyStep, Worker 0])) = Some EXITED \<and>
   destroying (destroy_step (run work_queued_pool [Deinit False, DestroyStep, DestroyStep])) = CLEAN_UP \<and>
   core_thread_get_state (destroy_step
      (run work_queued_pool [Deinit False, DestroyStep, DestroyStep, DestroyStep])) = THREADPOOL_STOPPED"
proof -
  let ?s0 = "run work_queued_pool [Deinit False]"
  let ?s1 = "run work_queued_pool [Deinit False, DestroyStep, DestroyStep, Worker 0]"
  let ?s2 = "run work_queued_pool [Deinit False, DestroyStep, DestroyStep]"
  let ?s3 = "run work_queued_pool [Deinit False, DestroyStep, DestroyStep, DestroyStep]"
  let ?p0 = "snd (the (g_threadpool ?s0))"
  let ?p1 = "snd (the (g_threadpool ?s1))"
  let ?p2 = "snd (the (g_threadpool ?s2))"
  let ?p3 = "snd (the (g_threadpool ?s3))"
  let ?ws0 = "snd (the (worker_threads ?p0))"
  let ?ws1 = "snd (the (worker_threads ?p1))"
  let ?q0 = "the (task_queue ?p0)"
  let ?q1 = "the (task_queue ?p1)"
  have g0: "g_threadpool ?s0 = Some (fst (the (g_threadpool ?s0)), ?p0)" by code_simp
  have d0: "destroying ?s0 = SEND_SIGNAL 0" by code_simp
  have w0: "worker_threads ?p0 = Some (fst (the (worker_threads ?p0)), ?ws0)" by code_simp
  have l0: "length ?ws0 = unat (thread_count ?p0)" by code_simp
  have n0: "list_all (\<lambda>w. w \<noteq> None) ?ws0" by code_simp
  have q0: "task_queue ?p0 = Some ?q0" by code_simp
  have r0: "length (mq_msgs ?q0) + unat (thread_count ?p0) \<le> mq_capacity ?q0" by code_simp
  have o0: "ordinary_below_255 ?q0" by code_simp
  have tc0: "unat (thread_count ?p0) = 2" by code_simp
  have sc0: "shutdown_count ?q0 = 0" by code_simp
  have qq0: "queue_of work_queued_pool = Some ?q0" by code_simp
  have z: "map_option ordinary_below_255 (queue_of work_queued_pool) = Some True"
    using teardown_signals_and_worker_exit
      [where results = "[]" and q0 = ?q0
        and evs = "[Init (Some roomy_config) (Some 100),
          AddTask (Some 7) None THREADPOOL_PRIORITY_LOW osPriorityNormal 0, Worker 0, Worker 0,
          AddTask (Some 8) None THREADPOOL_PRIORITY_LOW osPriorityNormal 0, Worker 1, Worker 1,
          low_task]"]
      qq0 by (simp add: work_queued_pool_def)
  from teardown_signals_and_worker_exit
    [where s = ?s0 and addr = "fst (the (g_threadpool ?s0))" and pool = ?p0
      and wa = "fst (the (worker_threads ?p0))" and ws = ?ws0 and q = ?q0]
    g0 d0 w0 l0 n0 q0 r0
  obtain q' where q':
    "run ?s0 (replicate (unat (thread_count ?p0)) DestroyStep) =
       ?s0\<lparr>g_threadpool := Some (fst (the (g_threadpool ?s0)), ?p0\<lparr>task_queue := Some q'\<rparr>),
           destroying := SEND_SIGNAL (unat (thread_count ?p0))\<rparr>"
    "shutdown_count q' = shutdown_count ?q0 + unat (thread_count ?p0)"
    "ordinary_msgs q' = ordinary_msgs ?q0"
    "ordinary_below_255 ?q0 \<and> 0 < unat (thread_count ?p0) \<longrightarrow> head_is_shutdown q'"
    by blast
  have qa: "queue_of (run ?s0 (replicate 2 DestroyStep)) = Some q'"
    using q'(1) tc0 by (simp add: queue_of_def)
  have a: "map_option shutdown_count (queue_of (run ?s0 (replicate 2 DestroyStep))) = Some 2"
    "map_option head_is_shutdown (queue_of (run ?s0 (replicate 2 DestroyStep))) = Some True"
    "map_option ordinary_msgs (queue_of (run ?s0 (replicate 2 DestroyStep)))
       = map_option ordinary_msgs (queue_of work_queued_pool)"
    using qa q'(2,3,4) o0 tc0 sc0 qq0 by simp_all
  have g1: "g_threadpool ?s1 = Some (fst (the (g_threadpool ?s1)), ?p1)" by code_simp
  have w1: "worker_threads ?p1 = Some (fst (the (worker_threads ?p1)), ?ws1)" by code_simp
  have i1: "0 < length ?ws1" by code_simp
  have e1: "?ws1 ! 0 = Some (the (?ws1 ! 0))" by code_simp
  have pc1: "pc (the (?ws1 ! 0)) = WAIT_TASK" by code_simp
  have q1: "task_queue ?p1 = Some ?q1" by code_simp
  have m1: "mq_msgs ?q1 = (fst (hd (mq_msgs ?q1)), snd (hd (mq_msgs ?q1))) # tl (mq_msgs ?q1)"
    by code_simp
  have sd1: "is_shutdown_signal (fst (hd (mq_msgs ?q1)))" by code_simp
  have b: "worker_pc_of 0 (worker_thread_function 0 ?s1) = Some EXITED"
    using teardown_signals_and_worker_exit
      [where s = ?s1 and addr = "fst (the (g_threadpool ?s1))" and pool = ?p1
        and wa = "fst (the (worker_threads ?p1))" and ws = ?ws1 and q = ?q1 and i = 0
        and w = "the (?ws1 ! 0)" and task = "fst (hd (mq_msgs ?q1))"
        and prio = "snd (hd (mq_msgs ?q1))" and rest = "tl (mq_msgs ?q1)"]
      g1 w1 i1 e1 pc1 q1 m1 sd1 by blast
  have g2: "g_threadpool ?s2 = Some (fst (the (g_threadpool ?s2)), ?p2)" by code_simp
  have d2: "destroying ?s2 = SEND_SIGNAL (unat (thread_count ?p2))" by code_simp
  have c: "destroying (destroy_step ?s2) = CLEAN_UP"
    using teardown_signals_and_worker_exit
      [where s = ?s2 and addr = "fst (the (g_threadpool ?s2))" and pool = ?p2]
      g2 d2 by blast
  have g3: "g_threadpool ?s3 = Some (fst (the (g_threadpool ?s3)), ?p3)" by code_simp
  have d3: "destroying ?s3 = CLEAN_UP" by code_simp
  have d: "core_thread_get_state (destroy_step ?s3) = THREADPOOL_STOPPED"
    using teardown_signals_and_worker_exit
      [where s = ?s3 and addr = "fst (the (g_threadpool ?s3))" and pool = ?p3]
      g3 d3 by blast
  show ?thesis
    using z a b c d by blast
qed

text \<open>
  Claim C5 as stated fails in two runs. With one ordinary task queued and room in the
  queue, the two shutdown-tagged tasks are placed ahead of it, and worker 0, once its
  task body returns, dequeues a shutdown-tagged task and exits while the ordinary task
  queued before the teardown is still in the queue. With the queue full and both
  workers occupied, both puts time out and no shutdown-tagged task is posted at all.
\<close>

theorem teardown_counterexample:
  "map_option head_is_shutdown
     (queue_of (run work_queued_pool [Deinit False, DestroyStep, DestroyStep])) = Some True \<and>
   worker_pc_of 0
     (run work_queued_pool [Deinit False, DestroyStep, DestroyStep, Worker 0, Worker 0]) = Some EXITED \<and>
   map_option ordinary_msgs
     (queue_of (run work_queued_pool [Deinit False, DestroyStep, DestroyStep, Worker 0, Worker 0]))
     = Some [(new_task (Some 9) None THREADPOOL_PRIORITY_LOW osPriorityNormal, 0)] \<and>
   map_option shutdown_count
     (queue_of (run full_queue_pool [Deinit False, DestroyStep, DestroyStep])) = Some 0 \<and>
   destroying (run full_queue_pool [Deinit False, DestroyStep, DestroyStep]) = SEND_SIGNAL 2"
  by code_simp

end
